theory Spec2Isabelle
  imports Main
begin

section \<open>Data model\<close>

text \<open>
  The robot is written in Go against the Gitee SDK. Only the fields the robot reads are
  kept. A Go pointer that may be nil is an \<open>option\<close>; a Go string is a list of bytes.
\<close>

record GitUser =
  Name :: string
  Email :: string

record PullRequestCommitsCommit =
  Author :: "GitUser option"
  Committer :: "GitUser option"
  Message :: string

record PullRequestCommits =
  Sha :: string
  Commit :: "PullRequestCommitsCommit option"

record PullRequestComments =
  Id :: int
  Body :: string

record PullRequestHook =
  Number :: int
  State :: string
  Labels :: "string list"
  UserLogin :: string

text \<open>config.go: \<open>litePRCommiter\<close> and \<open>botConfig\<close> (the embedded repository filter is
  only read by the library's lookup and is left out).\<close>

record litePRCommiter =
  lpEmail :: string
  lpName :: string

record botConfig =
  CLALabelYes :: string
  CLALabelNo :: string
  CheckURL :: string
  SignURL :: string
  CheckByCommitter :: bool
  LitePRCommitter :: litePRCommiter
  FAQURL :: string

text \<open>Go errors as values. Errors raised by the platform client are opaque to the robot.\<close>

datatype error =
    ClientError string
  | HttpGetError string
  | ReadBodyError string
  | BadStatus string string
  | UnmarshalFailed string
  | CommitsEmpty
  | CannotConvert
  | NoConfigFor string string
  | IndexOutOfRange

section \<open>The outside world: platform client, signing service, log\<close>

text \<open>Every call that leaves the process is recorded, in order.\<close>

datatype call =
    GetPRCommits string string int
  | ListPRComments string string int
  | AddPRLabel string string int string
  | RemovePRLabel string string int string
  | CreatePRComment string string int string
  | DeletePRComment string string int
  | HttpGet string

fun is_mutation :: "call \<Rightarrow> bool" where
  "is_mutation (AddPRLabel org repo n l) = True"
| "is_mutation (RemovePRLabel org repo n l) = True"
| "is_mutation (CreatePRComment org repo n c) = True"
| "is_mutation (DeletePRComment org repo i) = True"
| "is_mutation (GetPRCommits org repo n) = False"
| "is_mutation (ListPRComments org repo n) = False"
| "is_mutation (HttpGet u) = False"

fun is_label_mutation :: "call \<Rightarrow> bool" where
  "is_label_mutation (AddPRLabel org repo n l) = True"
| "is_label_mutation (RemovePRLabel org repo n l) = True"
| "is_label_mutation (CreatePRComment org repo n c) = False"
| "is_label_mutation (DeletePRComment org repo i) = False"
| "is_label_mutation (GetPRCommits org repo n) = False"
| "is_label_mutation (ListPRComments org repo n) = False"
| "is_label_mutation (HttpGet u) = False"

record http_response =
  StatusCode :: int
  Status :: string
  RespBody :: "error + string"

text \<open>
  What the robot cannot control: which client calls fail (\<open>fails\<close>), what the signing
  service answers (\<open>http_Get\<close>), and the library functions that are not part of the
  repository: \<open>utils.IsValidEmail\<close>, \<open>json.Unmarshal\<close> into the \<open>data.signed\<close> shape (the
  error message or the decoded boolean) and \<open>config.Find\<close> (the index of the first
  configuration item whose filter accepts the repository, or a negative number).
\<close>

record env =
  fails :: "call \<Rightarrow> error option"
  http_Get :: "string \<Rightarrow> error + http_response"
  IsValidEmail :: "string \<Rightarrow> bool"
  json_Unmarshal :: "string \<Rightarrow> string + bool"
  config_Find :: "string \<Rightarrow> string \<Rightarrow> botConfig list \<Rightarrow> int"

text \<open>The state of one pull request on the platform, the calls made so far and the log.\<close>

record world =
  w_commits :: "PullRequestCommits list"
  w_comments :: "PullRequestComments list"
  w_labels :: "string set"
  w_next_id :: int
  w_calls :: "call list"
  w_log :: "(error \<times> string) list"

definition record_call :: "call \<Rightarrow> world \<Rightarrow> world" where
  "record_call c w = w\<lparr>w_calls := w_calls w @ [c]\<rparr>"

text \<open>The six methods of \<open>iClient\<close>. A call that fails changes nothing on the platform.\<close>

definition cli_GetPRCommits ::
  "env \<Rightarrow> string \<Rightarrow> string \<Rightarrow> int \<Rightarrow> world \<Rightarrow> (error + PullRequestCommits list) \<times> world" where
  "cli_GetPRCommits ev org repo n w =
     (case fails ev (GetPRCommits org repo n) of
        Some e \<Rightarrow> (Inl e, record_call (GetPRCommits org repo n) w)
      | None \<Rightarrow> (Inr (w_commits w), record_call (GetPRCommits org repo n) w))"

definition cli_ListPRComments ::
  "env \<Rightarrow> string \<Rightarrow> string \<Rightarrow> int \<Rightarrow> world \<Rightarrow> (error + PullRequestComments list) \<times> world" where
  "cli_ListPRComments ev org repo n w =
     (case fails ev (ListPRComments org repo n) of
        Some e \<Rightarrow> (Inl e, record_call (ListPRComments org repo n) w)
      | None \<Rightarrow> (Inr (w_comments w), record_call (ListPRComments org repo n) w))"

definition cli_AddPRLabel ::
  "env \<Rightarrow> string \<Rightarrow> string \<Rightarrow> int \<Rightarrow> string \<Rightarrow> world \<Rightarrow> error option \<times> world" where
  "cli_AddPRLabel ev org repo n l w =
     (case fails ev (AddPRLabel org repo n l) of
        Some e \<Rightarrow> (Some e, record_call (AddPRLabel org repo n l) w)
      | None \<Rightarrow>
          (None, record_call (AddPRLabel org repo n l) (w\<lparr>w_labels := insert l (w_labels w)\<rparr>)))"

definition cli_RemovePRLabel ::
  "env \<Rightarrow> string \<Rightarrow> string \<Rightarrow> int \<Rightarrow> string \<Rightarrow> world \<Rightarrow> error option \<times> world" where
  "cli_RemovePRLabel ev org repo n l w =
     (case fails ev (RemovePRLabel org repo n l) of
        Some e \<Rightarrow> (Some e, record_call (RemovePRLabel org repo n l) w)
      | None \<Rightarrow>
          (None, record_call (RemovePRLabel org repo n l) (w\<lparr>w_labels := w_labels w - {l}\<rparr>)))"

definition cli_CreatePRComment ::
  "env \<Rightarrow> string \<Rightarrow> string \<Rightarrow> int \<Rightarrow> string \<Rightarrow> world \<Rightarrow> error option \<times> world" where
  "cli_CreatePRComment ev org repo n c w =
     (case fails ev (CreatePRComment org repo n c) of
        Some e \<Rightarrow> (Some e, record_call (CreatePRComment org repo n c) w)
      | None \<Rightarrow>
          (None, record_call (CreatePRComment org repo n c)
                   (w\<lparr>w_comments := w_comments w @ [\<lparr>Id = w_next_id w, Body = c\<rparr>],
                      w_next_id := w_next_id w + 1\<rparr>)))"

definition cli_DeletePRComment ::
  "env \<Rightarrow> string \<Rightarrow> string \<Rightarrow> int \<Rightarrow> world \<Rightarrow> error option \<times> world" where
  "cli_DeletePRComment ev org repo i w =
     (case fails ev (DeletePRComment org repo i) of
        Some e \<Rightarrow> (Some e, record_call (DeletePRComment org repo i) w)
      | None \<Rightarrow>
          (None, record_call (DeletePRComment org repo i)
                   (w\<lparr>w_comments := filter (\<lambda>c. Id c \<noteq> i) (w_comments w)\<rparr>)))"

text \<open>\<open>log.WithError(err).Warningf(msg)\<close>\<close>

definition Warningf :: "error \<Rightarrow> string \<Rightarrow> world \<Rightarrow> world" where
  "Warningf e msg w = w\<lparr>w_log := w_log w @ [(e, msg)]\<rparr>"

section \<open>Commit classifier\<close>

text \<open>config.go, \<open>litePRCommiter.isLitePR\<close>\<close>

definition isLitePR :: "litePRCommiter \<Rightarrow> string \<Rightarrow> string \<Rightarrow> bool" where
  "isLitePR l email name = (email = lpEmail l \<or> name = lpName l)"

text \<open>\<open>getAuthorOfCommit\<close>: the pointer \<open>c\<close>, \<open>c.Commit\<close>, the committer and the author may
  each be nil.\<close>

definition getAuthorOfCommit ::
  "PullRequestCommits option \<Rightarrow> bool \<Rightarrow> (string \<Rightarrow> string \<Rightarrow> bool) \<Rightarrow> string" where
  "getAuthorOfCommit c byCommitter isLite =
     (case c of
        None \<Rightarrow> []
      | Some pc \<Rightarrow>
          (case Commit pc of
             None \<Rightarrow> []
           | Some commit \<Rightarrow>
               (case (if byCommitter
                      then (case Committer commit of
                              None \<Rightarrow> None
                            | Some committer \<Rightarrow>
                                if \<not> isLite (Email committer) (Name committer)
                                then Some (Email committer) else None)
                      else None) of
                  Some r \<Rightarrow> r
                | None \<Rightarrow>
                    (case Author commit of
                       None \<Rightarrow> []
                     | Some a \<Rightarrow> Email a))))"

text \<open>The rule as the specification words it, for comparison with the code above.\<close>

definition has_committer :: "PullRequestCommits \<Rightarrow> bool" where
  "has_committer pc = (case Commit pc of None \<Rightarrow> False | Some commit \<Rightarrow> Committer commit \<noteq> None)"

definition has_author :: "PullRequestCommits \<Rightarrow> bool" where
  "has_author pc = (case Commit pc of None \<Rightarrow> False | Some commit \<Rightarrow> Author commit \<noteq> None)"

definition committer_of :: "PullRequestCommits \<Rightarrow> GitUser" where
  "committer_of pc = the (Committer (the (Commit pc)))"

definition author_of :: "PullRequestCommits \<Rightarrow> GitUser" where
  "author_of pc = the (Author (the (Commit pc)))"

definition resolveIdentity ::
  "PullRequestCommits \<Rightarrow> bool \<Rightarrow> (string \<Rightarrow> string \<Rightarrow> bool) \<Rightarrow> string" where
  "resolveIdentity pc checkByCommitter isLite =
     (if checkByCommitter \<and> has_committer pc
         \<and> \<not> isLite (Email (committer_of pc)) (Name (committer_of pc))
      then Email (committer_of pc)
      else if has_author pc then Email (author_of pc)
      else [])"

section \<open>Signature resolver\<close>

text \<open>\<open>strings.Trim(s, cutset)\<close> for a cutset of single-byte characters.\<close>

definition Trim :: "string \<Rightarrow> string \<Rightarrow> string" where
  "Trim s cutset =
     rev (dropWhile (\<lambda>c. c \<in> set cutset) (rev (dropWhile (\<lambda>c. c \<in> set cutset) s)))"

text \<open>\<open>isSigned\<close>: one HTTP GET; a transport error, a failed read of the body, a status
  outside 200..299 and a body that does not decode are errors.\<close>

definition isSigned :: "env \<Rightarrow> string \<Rightarrow> string \<Rightarrow> world \<Rightarrow> (error + bool) \<times> world" where
  "isSigned ev email url w =
     (let endpoint = url @ ''?email='' @ email;
          w1 = record_call (HttpGet endpoint) w
      in case http_Get ev endpoint of
           Inl err \<Rightarrow> (Inl err, w1)
         | Inr resp \<Rightarrow>
             (case RespBody resp of
                Inl err \<Rightarrow> (Inl err, w1)
              | Inr rb \<Rightarrow>
                  if StatusCode resp < 200 \<or> StatusCode resp > 299
                  then (Inl (BadStatus (Status resp) rb), w1)
                  else (case json_Unmarshal ev rb of
                          Inl msg \<Rightarrow> (Inl (UnmarshalFailed msg), w1)
                        | Inr signed \<Rightarrow> (Inr signed, w1))))"

text \<open>The closure \<open>authorEmailOfCommit\<close> of \<open>getPRCommitsAbout\<close>.\<close>

definition authorEmailOfCommit :: "botConfig \<Rightarrow> PullRequestCommits \<Rightarrow> string" where
  "authorEmailOfCommit cfg c =
     getAuthorOfCommit (Some c) (CheckByCommitter cfg) (isLitePR (LitePRCommitter cfg))"

text \<open>The loop of \<open>getPRCommitsAbout\<close> over the commits still to visit, with the cache
  \<open>result\<close> and the list \<open>unsigned\<close> built so far.\<close>

fun getPRCommitsAbout_loop ::
  "env \<Rightarrow> botConfig \<Rightarrow> PullRequestCommits list \<Rightarrow> (string \<rightharpoonup> bool) \<Rightarrow> PullRequestCommits list
   \<Rightarrow> world \<Rightarrow> (error + PullRequestCommits list) \<times> world" where
  "getPRCommitsAbout_loop ev cfg [] result unsigned w = (Inr unsigned, w)"
| "getPRCommitsAbout_loop ev cfg (c # cs) result unsigned w =
     (let email = Trim (authorEmailOfCommit cfg c) '' '' in
      if \<not> IsValidEmail ev email
      then getPRCommitsAbout_loop ev cfg cs result (unsigned @ [c]) w
      else (case result email of
              Some v \<Rightarrow>
                getPRCommitsAbout_loop ev cfg cs result (if \<not> v then unsigned @ [c] else unsigned) w
            | None \<Rightarrow>
                (case isSigned ev email (CheckURL cfg) w of
                   (Inl err, w1) \<Rightarrow> (Inl err, w1)
                 | (Inr b, w1) \<Rightarrow>
                     getPRCommitsAbout_loop ev cfg cs (result(email \<mapsto> b))
                       (if \<not> b then unsigned @ [c] else unsigned) w1)))"

definition getPRCommitsAbout ::
  "env \<Rightarrow> string \<Rightarrow> string \<Rightarrow> int \<Rightarrow> botConfig \<Rightarrow> world
   \<Rightarrow> (error + PullRequestCommits list) \<times> world" where
  "getPRCommitsAbout ev org repo number cfg w =
     (case cli_GetPRCommits ev org repo number w of
        (Inl err, w1) \<Rightarrow> (Inl err, w1)
      | (Inr commits, w1) \<Rightarrow>
          if length commits = 0 then (Inl CommitsEmpty, w1)
          else getPRCommitsAbout_loop ev cfg commits Map.empty [] w1)"

section \<open>Guidance comment\<close>

definition nl :: char where
  "nl = CHR 0x0A"

definition signGuideTitle :: string where
  "signGuideTitle =
     ''Thanks for your pull request.'' @ [nl, nl] @
     ''The authors of the following commits have not signed the Contributor License Agreement (CLA):''"

definition prefixOld :: string where
  "prefixOld =
     ''Thanks for your pull request. Before we can look at your pull request, you'' @ [CHR 0x27] @
     ''ll need to sign a Contributor License Agreement (CLA).''"

text \<open>\<open>strings.HasPrefix\<close>\<close>

definition HasPrefix :: "string \<Rightarrow> string \<Rightarrow> bool" where
  "HasPrefix s p = (length s \<ge> length p \<and> take (length p) s = p)"

definition isSignGuide :: "string \<Rightarrow> bool" where
  "isSignGuide s = (HasPrefix s signGuideTitle \<or> HasPrefix s prefixOld)"

fun deleteSignGuide_loop ::
  "env \<Rightarrow> string \<Rightarrow> string \<Rightarrow> PullRequestComments list \<Rightarrow> world \<Rightarrow> world" where
  "deleteSignGuide_loop ev org repo [] w = w"
| "deleteSignGuide_loop ev org repo (item # v) w =
     (if isSignGuide (Body item)
      then deleteSignGuide_loop ev org repo v (snd (cli_DeletePRComment ev org repo (Id item) w))
      else deleteSignGuide_loop ev org repo v w)"

definition deleteSignGuide :: "env \<Rightarrow> string \<Rightarrow> string \<Rightarrow> int \<Rightarrow> world \<Rightarrow> world" where
  "deleteSignGuide ev org repo number w =
     (case cli_ListPRComments ev org repo number w of
        (Inl err, w1) \<Rightarrow> w1
      | (Inr v, w1) \<Rightarrow> deleteSignGuide_loop ev org repo v w1)"

definition signGuide :: "string \<Rightarrow> string \<Rightarrow> string \<Rightarrow> string" where
  "signGuide signURL cInfo faq =
     signGuideTitle @ [nl, nl] @ cInfo @ [nl, nl] @
     ''Please check the [**FAQs**]('' @ faq @ '') first.'' @ [nl] @
     ''You can click [**here**]('' @ signURL @
     '') to sign the CLA. After signing the CLA, you must comment '' @ [CHR 0x22] @
     ''/check-cla'' @ [CHR 0x22] @ '' to check the CLA status again.''"

definition alreadySigned :: "string \<Rightarrow> string" where
  "alreadySigned user =
     ''***@'' @ user @
     ''***, thanks for your pull request. All authors of the commits have signed the CLA. :wave: ''"

definition maxLengthOfSHA :: nat where
  "maxLengthOfSHA = 8"

text \<open>\<open>strings.Join\<close>: nothing for no element, else the first element followed by every
  other one behind a separator.\<close>

fun Join :: "string list \<Rightarrow> string \<Rightarrow> string" where
  "Join [] sep = []"
| "Join (x # xs) sep = x @ concat (map (\<lambda>s. sep @ s) xs)"

text \<open>The loop of \<open>generateUnSignComment\<close>, appending one line per commit to \<open>cs\<close>.\<close>

fun generateUnSignComment_loop :: "PullRequestCommits list \<Rightarrow> string list \<Rightarrow> string list" where
  "generateUnSignComment_loop [] cs = cs"
| "generateUnSignComment_loop (c # commits) cs =
     (let msg = (case Commit c of None \<Rightarrow> [] | Some commit \<Rightarrow> Message commit);
          sha = (if length (Sha c) > maxLengthOfSHA then take maxLengthOfSHA (Sha c) else Sha c)
      in generateUnSignComment_loop commits (cs @ [''**'' @ sha @ ''** | '' @ msg]))"

definition generateUnSignComment :: "PullRequestCommits list \<Rightarrow> string" where
  "generateUnSignComment commits =
     (if length commits = 0 then []
      else Join (generateUnSignComment_loop commits []) [nl])"

section \<open>State reconciler\<close>

text \<open>\<open>pr.LabelsToSet()\<close>\<close>

definition LabelsToSet :: "PullRequestHook \<Rightarrow> string set" where
  "LabelsToSet pr = set (Labels pr)"

definition handle ::
  "env \<Rightarrow> string \<Rightarrow> string \<Rightarrow> PullRequestHook \<Rightarrow> botConfig \<Rightarrow> bool \<Rightarrow> world
   \<Rightarrow> error option \<times> world" where
  "handle ev org repo pr cfg notifyAuthorIfSigned w =
     (let prNumber = Number pr in
      case getPRCommitsAbout ev org repo prNumber cfg w of
        (Inl err, w1) \<Rightarrow> (Some err, w1)
      | (Inr unsigned, w1) \<Rightarrow>
          (let labels = LabelsToSet pr;
               hasCLAYes = (CLALabelYes cfg \<in> labels);
               hasCLANo = (CLALabelNo cfg \<in> labels);
               w2 = deleteSignGuide ev org repo prNumber w1
           in if length unsigned = 0
              then
                (let w3 = (if hasCLANo
                           then (case cli_RemovePRLabel ev org repo prNumber (CLALabelNo cfg) w2 of
                                   (Some err, w') \<Rightarrow>
                                     Warningf err (''Could not remove '' @ CLALabelNo cfg @ '' label.'') w'
                                 | (None, w') \<Rightarrow> w')
                           else w2)
                 in if \<not> hasCLAYes
                    then
                      (let w4 = (case cli_AddPRLabel ev org repo prNumber (CLALabelYes cfg) w3 of
                                   (Some err, w') \<Rightarrow>
                                     Warningf err (''Could not add '' @ CLALabelYes cfg @ '' label.'') w'
                                 | (None, w') \<Rightarrow> w')
                       in if notifyAuthorIfSigned
                          then cli_CreatePRComment ev org repo prNumber (alreadySigned (UserLogin pr)) w4
                          else (None, w4))
                    else (None, w3))
              else
                (let w3 = (if hasCLAYes
                           then (case cli_RemovePRLabel ev org repo prNumber (CLALabelYes cfg) w2 of
                                   (Some err, w') \<Rightarrow>
                                     Warningf err (''Could not remove '' @ CLALabelYes cfg @ '' label.'') w'
                                 | (None, w') \<Rightarrow> w')
                           else w2);
                     w4 = (if \<not> hasCLANo
                           then (case cli_AddPRLabel ev org repo prNumber (CLALabelNo cfg) w3 of
                                   (Some err, w') \<Rightarrow>
                                     Warningf err (''Could not add '' @ CLALabelNo cfg @ '' label.'') w'
                                 | (None, w') \<Rightarrow> w')
                           else w3)
                 in cli_CreatePRComment ev org repo prNumber
                      (signGuide (SignURL cfg) (generateUnSignComment unsigned) (FAQURL cfg)) w4)))"

section \<open>Event filter\<close>

subsection \<open>The trigger pattern\<close>

text \<open>
  \<open>checkCLARe\<close> is the regular expression \<^verbatim>\<open>(?mi)^/check-cla\s*$\<close>. Its syntax tree is a
  sequence of four kinds of items: the start of a line, a literal character matched
  under case folding, a starred white-space class, and the end of a line. The matcher
  works on the bytes of the UTF-8 text. In multi-line mode the start of a line is the
  start of the text or the position behind a line feed, and the end of a line is the end
  of the text or the position before a line feed. The class \<^verbatim>\<open>\s\<close> is tab, line feed,
  form feed, carriage return and space.
\<close>

datatype re_item = BeginLine | EndLine | FoldLit char | StarSpace

definition is_space :: "char \<Rightarrow> bool" where
  "is_space c = (c = CHR 0x09 \<or> c = CHR 0x0A \<or> c = CHR 0x0C \<or> c = CHR 0x0D \<or> c = CHR 0x20)"

text \<open>Case folding of one byte: an ASCII letter equals its other case.\<close>

definition swap_case :: "char \<Rightarrow> char" where
  "swap_case c =
     (case map_of (zip (''abcdefghijklmnopqrstuvwxyz'' @ ''ABCDEFGHIJKLMNOPQRSTUVWXYZ'')
                       (''ABCDEFGHIJKLMNOPQRSTUVWXYZ'' @ ''abcdefghijklmnopqrstuvwxyz'')) c of
        Some d \<Rightarrow> d
      | None \<Rightarrow> c)"

text \<open>
  One literal of the pattern against the text: the bytes consumed and the rest, or
  nothing. Folding is Unicode simple folding, under which the letter k also equals
  the Kelvin sign U+212A, three bytes in UTF-8; no other letter of the ASCII range but s
  has a fold outside it.
\<close>

fun fold_step :: "char \<Rightarrow> string \<Rightarrow> (string \<times> string) option" where
  "fold_step p [] = None"
| "fold_step p (x # xs) =
     (if x = p \<or> x = swap_case p then Some ([x], xs)
      else if (p = CHR ''k'' \<or> p = CHR ''K'') \<and> x = CHR 0xE2
      then (case xs of
              y # z # rest \<Rightarrow>
                if y = CHR 0x84 \<and> z = CHR 0xAA then Some ([x, y, z], rest) else None
            | _ \<Rightarrow> None)
      else None)"

text \<open>Does the sequence of items match at this position? \<open>prev\<close> is the byte before the
  position, if any.\<close>

function (sequential) match_here :: "re_item list \<Rightarrow> char option \<Rightarrow> string \<Rightarrow> bool" where
  "match_here [] prev s = True"
| "match_here (BeginLine # r) prev s =
     ((prev = None \<or> prev = Some nl) \<and> match_here r prev s)"
| "match_here (EndLine # r) prev s =
     ((case s of [] \<Rightarrow> True | x # xs \<Rightarrow> x = nl) \<and> match_here r prev s)"
| "match_here (FoldLit p # r) prev s =
     (case fold_step p s of
        None \<Rightarrow> False
      | Some (u, rest) \<Rightarrow> match_here r (Some (last u)) rest)"
| "match_here (StarSpace # r) prev s =
     (match_here r prev s \<or>
      (case s of
         [] \<Rightarrow> False
       | x # xs \<Rightarrow> is_space x \<and> match_here (StarSpace # r) (Some x) xs))"
  by pat_completeness auto
termination
  apply (relation "measures [\<lambda>(r, prev, s). length s, \<lambda>(r, prev, s). length r]")
  apply simp_all
  subgoal for p s x2 u rest
    by (cases s) (auto split: if_splits list.splits)
  done

text \<open>\<open>MatchString\<close>: the pattern matches somewhere in the text.\<close>

fun search :: "re_item list \<Rightarrow> char option \<Rightarrow> string \<Rightarrow> bool" where
  "search re prev [] = match_here re prev []"
| "search re prev (x # xs) = (match_here re prev (x # xs) \<or> search re (Some x) xs)"

definition MatchString :: "re_item list \<Rightarrow> string \<Rightarrow> bool" where
  "MatchString re s = search re None s"

definition checkCLARe :: "re_item list" where
  "checkCLARe = BeginLine # map FoldLit ''/check-cla'' @ [StarSpace, EndLine]"

text \<open>The pattern in words: some line of the text is the command, in any case, with
  nothing but white space behind it.\<close>

fun lines_of :: "string \<Rightarrow> string list" where
  "lines_of [] = [[]]"
| "lines_of (x # xs) =
     (if x = nl then [] # lines_of xs
      else (x # hd (lines_of xs)) # tl (lines_of xs))"

text \<open>The text up to the first line feed.\<close>

abbreviation (input) first_line :: "string \<Rightarrow> string" where
  "first_line s \<equiv> takeWhile (\<lambda>c. c \<noteq> nl) s"

fun fold_prefix :: "string \<Rightarrow> string \<Rightarrow> string option" where
  "fold_prefix [] s = Some s"
| "fold_prefix (p # ps) s =
     (case fold_step p s of None \<Rightarrow> None | Some (u, rest) \<Rightarrow> fold_prefix ps rest)"

definition is_check_cla_line :: "string \<Rightarrow> bool" where
  "is_check_cla_line l =
     (case fold_prefix ''/check-cla'' l of None \<Rightarrow> False | Some rest \<Rightarrow> list_all is_space rest)"

subsection \<open>Configuration lookup and the two handlers\<close>

text \<open>The framework hands the robot a \<open>config.Config\<close>; the type assertion to
  \<open>*configuration\<close> can fail, and the pointer can be nil.\<close>

datatype Config = Configuration "botConfig list option" | OtherConfig

definition configFor :: "env \<Rightarrow> botConfig list option \<Rightarrow> string \<Rightarrow> string \<Rightarrow> error + botConfig option" where
  "configFor ev c org repo =
     (case c of
        None \<Rightarrow> Inr None
      | Some items \<Rightarrow>
          (let i = config_Find ev org repo items
           in if i \<ge> 0
              then (if nat i < length items then Inr (Some (items ! nat i)) else Inl IndexOutOfRange)
              else Inr None))"

definition getConfig :: "env \<Rightarrow> Config \<Rightarrow> string \<Rightarrow> string \<Rightarrow> error + botConfig" where
  "getConfig ev cfg org repo =
     (case cfg of
        OtherConfig \<Rightarrow> Inl CannotConvert
      | Configuration c \<Rightarrow>
          (case configFor ev c org repo of
             Inl err \<Rightarrow> Inl err
           | Inr (Some bc) \<Rightarrow> Inr bc
           | Inr None \<Rightarrow> Inl (NoConfigFor org repo)))"

text \<open>The action the SDK computes for a pull request event; the robot compares it with
  two of the SDK's constants.\<close>

datatype PRAction = PRActionOpened | PRActionChangedSourceBranch | PRActionOther string

record PullRequestEvent =
  pe_PullRequest :: PullRequestHook
  pe_Action :: PRAction
  pe_Org :: string
  pe_Repo :: string

text \<open>A comment event. \<open>IsCreatingCommentEvent\<close> and \<open>IsPullRequest\<close> are accessors of the
  SDK on the event's action and target kind; the state of the pull request is a field of
  the hook.\<close>

record NoteEvent =
  ne_IsCreatingCommentEvent :: bool
  ne_IsPullRequest :: bool
  ne_CommentBody :: string
  ne_PullRequest :: PullRequestHook
  ne_Org :: string
  ne_Repo :: string

definition handlePREvent :: "env \<Rightarrow> PullRequestEvent \<Rightarrow> Config \<Rightarrow> world \<Rightarrow> error option \<times> world" where
  "handlePREvent ev e c w =
     (if State (pe_PullRequest e) \<noteq> ''open'' then (None, w)
      else if pe_Action e \<noteq> PRActionOpened \<and> pe_Action e \<noteq> PRActionChangedSourceBranch
      then (None, w)
      else (case getConfig ev c (pe_Org e) (pe_Repo e) of
              Inl err \<Rightarrow> (Some err, w)
            | Inr cfg \<Rightarrow> handle ev (pe_Org e) (pe_Repo e) (pe_PullRequest e) cfg False w))"

definition handleNoteEvent :: "env \<Rightarrow> NoteEvent \<Rightarrow> Config \<Rightarrow> world \<Rightarrow> error option \<times> world" where
  "handleNoteEvent ev e c w =
     (if \<not> ne_IsCreatingCommentEvent e \<or> \<not> ne_IsPullRequest e then (None, w)
      else if \<not> MatchString checkCLARe (ne_CommentBody e) then (None, w)
      else (case getConfig ev c (ne_Org e) (ne_Repo e) of
              Inl err \<Rightarrow> (Some err, w)
            | Inr cfg \<Rightarrow> handle ev (ne_Org e) (ne_Repo e) (ne_PullRequest e) cfg True w))"

section \<open>Observations on a run\<close>

text \<open>The calls made between two states of the world, and what the theorems below read
  off them.\<close>

definition new_calls :: "world \<Rightarrow> world \<Rightarrow> call list" where
  "new_calls w w' = drop (length (w_calls w)) (w_calls w')"

definition resolved :: "botConfig \<Rightarrow> PullRequestCommits \<Rightarrow> string" where
  "resolved cfg c = Trim (authorEmailOfCommit cfg c) '' ''"

definition query_call :: "botConfig \<Rightarrow> string \<Rightarrow> call" where
  "query_call cfg email = HttpGet (CheckURL cfg @ ''?email='' @ email)"


text \<open>What the signing service answers for an email (the world only records the call),
  and the commits a pass that runs to its end counts as unsigned.\<close>

definition answer :: "env \<Rightarrow> botConfig \<Rightarrow> world \<Rightarrow> string \<Rightarrow> error + bool" where
  "answer ev cfg w email = fst (isSigned ev email (CheckURL cfg) w)"

definition counts_unsigned :: "env \<Rightarrow> botConfig \<Rightarrow> world \<Rightarrow> PullRequestCommits \<Rightarrow> bool" where
  "counts_unsigned ev cfg w c =
     (\<not> (IsValidEmail ev (resolved cfg c) \<and> answer ev cfg w (resolved cfg c) = Inr True))"

text \<open>
  The reconciler as the specification describes it, as the list of calls a pass makes
  once the unsigned commits are known: first the clean-up of guidance comments, then the
  label changes the verdict asks for, each guarded by the labels of the hook, then the
  comment.
\<close>

definition cleanup_calls :: "env \<Rightarrow> string \<Rightarrow> string \<Rightarrow> int \<Rightarrow> world \<Rightarrow> call list" where
  "cleanup_calls ev org repo n w =
     ListPRComments org repo n #
     (case fails ev (ListPRComments org repo n) of
        Some err \<Rightarrow> []
      | None \<Rightarrow>
          map (\<lambda>c. DeletePRComment org repo (Id c))
            (filter (\<lambda>c. isSignGuide (Body c)) (w_comments w)))"

definition verdict_calls ::
  "string \<Rightarrow> string \<Rightarrow> PullRequestHook \<Rightarrow> botConfig \<Rightarrow> bool \<Rightarrow> PullRequestCommits list \<Rightarrow> call list" where
  "verdict_calls org repo pr cfg notify unsigned =
     (if unsigned = []
      then (if CLALabelNo cfg \<in> set (Labels pr)
            then [RemovePRLabel org repo (Number pr) (CLALabelNo cfg)] else []) @
           (if CLALabelYes cfg \<in> set (Labels pr) then []
            else AddPRLabel org repo (Number pr) (CLALabelYes cfg) #
                 (if notify
                  then [CreatePRComment org repo (Number pr) (alreadySigned (UserLogin pr))]
                  else []))
      else (if CLALabelYes cfg \<in> set (Labels pr)
            then [RemovePRLabel org repo (Number pr) (CLALabelYes cfg)] else []) @
           (if CLALabelNo cfg \<in> set (Labels pr) then []
            else [AddPRLabel org repo (Number pr) (CLALabelNo cfg)]) @
           [CreatePRComment org repo (Number pr)
              (signGuide (SignURL cfg) (generateUnSignComment unsigned) (FAQURL cfg))])"

text \<open>One line of the guidance comment as the specification gives it: the first eight
  characters of the SHA in bold, a bar, the commit message.\<close>

definition render_line :: "PullRequestCommits \<Rightarrow> string" where
  "render_line c =
     ''**'' @ take 8 (Sha c) @ ''** | '' @
     (case Commit c of None \<Rightarrow> [] | Some commit \<Rightarrow> Message commit)"

text \<open>The lines joined by line feeds, in the order of the list.\<close>

fun commit_listing :: "PullRequestCommits list \<Rightarrow> string" where
  "commit_listing [] = []"
| "commit_listing [c] = render_line c"
| "commit_listing (c # cs) = render_line c @ [nl] @ commit_listing cs"

fun is_create :: "call \<Rightarrow> bool" where
  "is_create (CreatePRComment org repo n c) = True"
| "is_create c = False"

text \<open>What the membership test before a label call guarantees about the call.\<close>

fun guarded_by :: "string set \<Rightarrow> call \<Rightarrow> bool" where
  "guarded_by labels (AddPRLabel org repo n l) = (l \<notin> labels)"
| "guarded_by labels (RemovePRLabel org repo n l) = (l \<in> labels)"
| "guarded_by labels c = True"


text \<open>The same environment with every label and comment call succeeding.\<close>

definition mutations_succeed :: "env \<Rightarrow> env" where
  "mutations_succeed ev = ev\<lparr>fails := (\<lambda>c. if is_mutation c then None else fails ev c)\<rparr>"

section \<open>Example data\<close>

text \<open>A configuration, a signing service in which one address is signed, one is not
  and one makes the request fail, and a pull request with two comments, one of them an
  earlier guidance comment.\<close>

definition cfg0 :: botConfig where
  "cfg0 = \<lparr>CLALabelYes = ''cla/yes'', CLALabelNo = ''cla/no'',
            CheckURL = ''https://cla.example/check'', SignURL = ''https://cla.example/sign'',
            CheckByCommitter = False,
            LitePRCommitter = \<lparr>lpEmail = ''bot@example.com'', lpName = ''bot''\<rparr>,
            FAQURL = ''https://cla.example/faq''\<rparr>"

definition commit0 :: "string \<Rightarrow> string \<Rightarrow> string \<Rightarrow> PullRequestCommits" where
  "commit0 sha email msg =
     \<lparr>Sha = sha,
      Commit = Some \<lparr>Author = Some \<lparr>Name = ''dev'', Email = email\<rparr>, Committer = None,
                     Message = msg\<rparr>\<rparr>"

definition service0 :: "string \<Rightarrow> error + http_response" where
  "service0 u =
     (if u = ''https://cla.example/check?email=down@x.com'' then Inl (HttpGetError ''timeout'')
      else Inr \<lparr>StatusCode = 200, Status = ''200 OK'',
                RespBody = Inr (if u = ''https://cla.example/check?email=a@x.com''
                                then ''yes'' else ''no'')\<rparr>)"

definition env0 :: env where
  "env0 = \<lparr>fails = (\<lambda>c. None), http_Get = service0,
            IsValidEmail = (\<lambda>e. CHR ''@'' \<in> set e),
            json_Unmarshal = (\<lambda>b. if b = ''yes'' then Inr True
                                    else if b = ''no'' then Inr False else Inl ''syntax''),
            config_Find = (\<lambda>org repo items. if items = [] then - 1 else 0)\<rparr>"

definition env_label_down :: env where
  "env_label_down =
     env0\<lparr>fails := (\<lambda>c. if is_label_mutation c then Some (ClientError ''503'') else None)\<rparr>"

definition env_comment_down :: env where
  "env_comment_down =
     env0\<lparr>fails := (\<lambda>c. case c of CreatePRComment org repo n b \<Rightarrow> Some (ClientError ''503'')
                            | _ \<Rightarrow> None)\<rparr>"

definition world0 :: "PullRequestCommits list \<Rightarrow> string list \<Rightarrow> world" where
  "world0 commits labels =
     \<lparr>w_commits = commits,
      w_comments = [\<lparr>Id = 1, Body = ''LGTM''\<rparr>, \<lparr>Id = 2, Body = signGuideTitle @ ''...''\<rparr>],
      w_labels = set labels, w_next_id = 3, w_calls = [], w_log = []\<rparr>"

definition pr0 :: "string list \<Rightarrow> PullRequestHook" where
  "pr0 labels = \<lparr>Number = 7, State = ''open'', Labels = labels, UserLogin = ''alice''\<rparr>"

definition note0 :: "string \<Rightarrow> string \<Rightarrow> NoteEvent" where
  "note0 body state =
     \<lparr>ne_IsCreatingCommentEvent = True, ne_IsPullRequest = True, ne_CommentBody = body,
      ne_PullRequest = (pr0 [])\<lparr>State := state\<rparr>, ne_Org = ''org'', ne_Repo = ''repo''\<rparr>"

lemmas run_defs = handle_def getPRCommitsAbout_def cli_GetPRCommits_def cli_ListPRComments_def
  cli_AddPRLabel_def cli_RemovePRLabel_def cli_CreatePRComment_def cli_DeletePRComment_def
  record_call_def Warningf_def isSigned_def authorEmailOfCommit_def getAuthorOfCommit_def
  isLitePR_def Trim_def deleteSignGuide_def isSignGuide_def HasPrefix_def LabelsToSet_def
  Let_def env0_def world0_def pr0_def cfg0_def commit0_def service0_def
  env_label_down_def env_comment_down_def

lemmas event_defs = handleNoteEvent_def handlePREvent_def getConfig_def configFor_def note0_def
  MatchString_def checkCLARe_def swap_case_def nl_def is_space_def

section \<open>Facts about the client and the loops\<close>

lemma record_call_simps [simp]:
  "w_calls (record_call c w) = w_calls w @ [c]"
  "w_labels (record_call c w) = w_labels w"
  "w_comments (record_call c w) = w_comments w"
  "w_commits (record_call c w) = w_commits w"
  "w_log (record_call c w) = w_log w"
  "w_next_id (record_call c w) = w_next_id w"
  by (simp_all add: record_call_def)

lemma isSigned_snd [simp]:
  "snd (isSigned ev email url w) = record_call (HttpGet (url @ ''?email='' @ email)) w"
  by (simp add: isSigned_def Let_def split: sum.splits)

lemma isSigned_fst: "fst (isSigned ev email url w) = fst (isSigned ev email url w0)"
  by (simp add: isSigned_def Let_def split: sum.splits)

lemma answer_world: "answer ev cfg w email = answer ev cfg w0 email"
  unfolding answer_def by (rule isSigned_fst)

lemma answer_record_call [simp]: "answer ev cfg (record_call c w) = answer ev cfg w"
  by (rule ext) (rule answer_world)

lemma isSigned_eq:
  "isSigned ev email (CheckURL cfg) w = (answer ev cfg w0 email, record_call (query_call cfg email) w)"
  using isSigned_fst[of ev email "CheckURL cfg" w w0] isSigned_snd[of ev email "CheckURL cfg" w]
  unfolding answer_def by (metis prod.collapse query_call_def)

lemma query_call_inj [simp]: "query_call cfg a = query_call cfg b \<longleftrightarrow> a = b"
  by (simp add: query_call_def)

text \<open>The calls of the loop are queries for distinct valid emails not yet in the cache;
  a loop that runs to its end has asked about every one of them.\<close>

lemma loop_queries:
  "getPRCommitsAbout_loop ev cfg cs result unsigned w = (r, w') \<Longrightarrow>
   \<exists>qs. w_calls w' = w_calls w @ map (query_call cfg) qs
      \<and> distinct qs
      \<and> set qs \<subseteq> {e \<in> resolved cfg ` set cs. IsValidEmail ev e} - dom result
      \<and> ((\<exists>u. r = Inr u) \<longrightarrow> set qs = {e \<in> resolved cfg ` set cs. IsValidEmail ev e} - dom result)
      \<and> (\<forall>err. r = Inl err \<longrightarrow> qs \<noteq> [] \<and> answer ev cfg w (last qs) = Inl err)
      \<and> ((\<exists>u. r = Inr u) \<longrightarrow> (\<forall>e\<in>set qs. \<exists>b. answer ev cfg w e = Inr b))
      \<and> w_labels w' = w_labels w \<and> w_comments w' = w_comments w \<and> w_log w' = w_log w
      \<and> w_commits w' = w_commits w \<and> w_next_id w' = w_next_id w"
proof (induction cs arbitrary: result unsigned w)
  case Nil
  then show ?case by auto
next
  case (Cons c cs)
  let ?e = "resolved cfg c"
  show ?case
  proof (cases "IsValidEmail ev ?e")
    case False
    with Cons.prems have "getPRCommitsAbout_loop ev cfg cs result (unsigned @ [c]) w = (r, w')"
      by (simp add: resolved_def Let_def)
    from Cons.IH[OF this] obtain qs where qs:
      "w_calls w' = w_calls w @ map (query_call cfg) qs" "distinct qs"
      "set qs \<subseteq> {e \<in> resolved cfg ` set cs. IsValidEmail ev e} - dom result"
      "(\<exists>u. r = Inr u) \<longrightarrow> set qs = {e \<in> resolved cfg ` set cs. IsValidEmail ev e} - dom result"
      "\<forall>err. r = Inl err \<longrightarrow> qs \<noteq> [] \<and> answer ev cfg w (last qs) = Inl err"
      "(\<exists>u. r = Inr u) \<longrightarrow> (\<forall>e\<in>set qs. \<exists>b. answer ev cfg w e = Inr b)"
      "w_labels w' = w_labels w" "w_comments w' = w_comments w" "w_log w' = w_log w"
      "w_commits w' = w_commits w" "w_next_id w' = w_next_id w"
      by blast
    have eq: "{e \<in> resolved cfg ` set (c # cs). IsValidEmail ev e} - dom result
        = {e \<in> resolved cfg ` set cs. IsValidEmail ev e} - dom result"
      using False by auto
    show ?thesis unfolding eq using qs by blast
  next
    case valid: True
    show ?thesis
    proof (cases "result ?e")
      case (Some v)
      with valid Cons.prems
      have "getPRCommitsAbout_loop ev cfg cs result (if \<not> v then unsigned @ [c] else unsigned) w = (r, w')"
        by (simp add: resolved_def Let_def)
      from Cons.IH[OF this] obtain qs where qs:
        "w_calls w' = w_calls w @ map (query_call cfg) qs" "distinct qs"
        "set qs \<subseteq> {e \<in> resolved cfg ` set cs. IsValidEmail ev e} - dom result"
        "(\<exists>u. r = Inr u) \<longrightarrow> set qs = {e \<in> resolved cfg ` set cs. IsValidEmail ev e} - dom result"
      "\<forall>err. r = Inl err \<longrightarrow> qs \<noteq> [] \<and> answer ev cfg w (last qs) = Inl err"
      "(\<exists>u. r = Inr u) \<longrightarrow> (\<forall>e\<in>set qs. \<exists>b. answer ev cfg w e = Inr b)"
        "w_labels w' = w_labels w" "w_comments w' = w_comments w" "w_log w' = w_log w"
        "w_commits w' = w_commits w" "w_next_id w' = w_next_id w"
        by blast
      have eq: "{e \<in> resolved cfg ` set (c # cs). IsValidEmail ev e} - dom result
          = {e \<in> resolved cfg ` set cs. IsValidEmail ev e} - dom result"
        using Some by auto
      show ?thesis unfolding eq using qs by blast
    next
      case None
      let ?w1 = "record_call (query_call cfg ?e) w"
      show ?thesis
      proof (cases "answer ev cfg w ?e")
        case (Inl err)
        with None valid Cons.prems isSigned_eq[of ev ?e cfg w w]
        have "r = Inl err" "w' = ?w1"
          by (auto simp: resolved_def Let_def)
        then show ?thesis using None valid Inl
          by (intro exI[of _ "[?e]"]) auto
      next
        case (Inr b)
        with None valid Cons.prems isSigned_eq[of ev ?e cfg w w]
        have "getPRCommitsAbout_loop ev cfg cs (result(?e \<mapsto> b))
                (if \<not> b then unsigned @ [c] else unsigned) ?w1 = (r, w')"
          by (auto simp: resolved_def Let_def)
        from Cons.IH[OF this] obtain qs where qs:
          "w_calls w' = w_calls ?w1 @ map (query_call cfg) qs" "distinct qs"
          "set qs \<subseteq> {e \<in> resolved cfg ` set cs. IsValidEmail ev e} - dom (result(?e \<mapsto> b))"
          "(\<exists>u. r = Inr u) \<longrightarrow> set qs = {e \<in> resolved cfg ` set cs. IsValidEmail ev e} - dom (result(?e \<mapsto> b))"
          "\<forall>err. r = Inl err \<longrightarrow> qs \<noteq> [] \<and> answer ev cfg ?w1 (last qs) = Inl err"
          "(\<exists>u. r = Inr u) \<longrightarrow> (\<forall>e\<in>set qs. \<exists>b. answer ev cfg ?w1 e = Inr b)"
          "w_labels w' = w_labels ?w1" "w_comments w' = w_comments ?w1" "w_log w' = w_log ?w1"
          "w_commits w' = w_commits ?w1" "w_next_id w' = w_next_id ?w1"
          by blast
        have a: "w_calls w' = w_calls w @ map (query_call cfg) (?e # qs)"
          using qs(1) by simp
        have b: "distinct (?e # qs)" using qs(2,3) by auto
        have c: "set (?e # qs) \<subseteq> {e \<in> resolved cfg ` set (c # cs). IsValidEmail ev e} - dom result"
          using qs(3) None valid by auto
        have d: "(\<exists>u. r = Inr u) \<longrightarrow> set (?e # qs) = {e \<in> resolved cfg ` set (c # cs). IsValidEmail ev e} - dom result"
          using qs(4) None valid by auto
        have e: "\<forall>err. r = Inl err \<longrightarrow> ?e # qs \<noteq> [] \<and> answer ev cfg w (last (?e # qs)) = Inl err"
          using qs(5) by auto
        have f: "(\<exists>u. r = Inr u) \<longrightarrow> (\<forall>e\<in>set (?e # qs). \<exists>b. answer ev cfg w e = Inr b)"
          using qs(6) Inr by auto
        show ?thesis
          using a b c d e f qs(7-11) by (intro exI[of _ "?e # qs"]) simp
      qed
    qed
  qed
qed

lemma loop_unsigned:
  "getPRCommitsAbout_loop ev cfg cs result unsigned w = (Inr u, w') \<Longrightarrow>
   (\<forall>e v. result e = Some v \<longrightarrow> answer ev cfg w e = Inr v) \<Longrightarrow>
   u = unsigned @ filter (counts_unsigned ev cfg w) cs"
proof (induction cs arbitrary: result unsigned w)
  case Nil
  then show ?case by simp
next
  case (Cons c cs)
  let ?e = "resolved cfg c"
  show ?case
  proof (cases "IsValidEmail ev ?e")
    case False
    with Cons.prems have "getPRCommitsAbout_loop ev cfg cs result (unsigned @ [c]) w = (Inr u, w')"
      by (simp add: resolved_def Let_def)
    from Cons.IH[OF this Cons.prems(2)] False show ?thesis
      by (simp add: counts_unsigned_def)
  next
    case valid: True
    show ?thesis
    proof (cases "result ?e")
      case (Some v)
      with valid Cons.prems
      have "getPRCommitsAbout_loop ev cfg cs result (if \<not> v then unsigned @ [c] else unsigned) w = (Inr u, w')"
        by (simp add: resolved_def Let_def)
      from Cons.IH[OF this Cons.prems(2)] Some valid Cons.prems(2) show ?thesis
        by (auto simp: counts_unsigned_def)
    next
      case None
      let ?w1 = "record_call (query_call cfg ?e) w"
      show ?thesis
      proof (cases "answer ev cfg w ?e")
        case (Inl err)
        with None valid Cons.prems(1) isSigned_eq[of ev ?e cfg w w]
        show ?thesis by (auto simp: resolved_def Let_def)
      next
        case (Inr b)
        with None valid Cons.prems(1) isSigned_eq[of ev ?e cfg w w]
        have step: "getPRCommitsAbout_loop ev cfg cs (result(?e \<mapsto> b))
                (if \<not> b then unsigned @ [c] else unsigned) ?w1 = (Inr u, w')"
          by (auto simp: resolved_def Let_def)
        have inv: "\<forall>e v. (result(?e \<mapsto> b)) e = Some v \<longrightarrow> answer ev cfg ?w1 e = Inr v"
          using Cons.prems(2) Inr by auto
        from Cons.IH[OF step inv] Inr valid show ?thesis
          by (auto simp: counts_unsigned_def)
      qed
    qed
  qed
qed

lemma Warningf_simps [simp]:
  "w_calls (Warningf e m w) = w_calls w"
  "w_labels (Warningf e m w) = w_labels w"
  "w_comments (Warningf e m w) = w_comments w"
  "w_commits (Warningf e m w) = w_commits w"
  "w_log (Warningf e m w) = w_log w @ [(e, m)]"
  "w_next_id (Warningf e m w) = w_next_id w"
  by (simp_all add: Warningf_def)

lemma deleteSignGuide_loop_calls:
  "w_calls (deleteSignGuide_loop ev org repo v w) =
     w_calls w @ map (\<lambda>c. DeletePRComment org repo (Id c)) (filter (\<lambda>c. isSignGuide (Body c)) v)"
  by (induction v arbitrary: w) (auto simp: cli_DeletePRComment_def split: option.splits)

lemma deleteSignGuide_loop_same [simp]:
  "w_labels (deleteSignGuide_loop ev org repo v w) = w_labels w"
  "w_log (deleteSignGuide_loop ev org repo v w) = w_log w"
  "w_commits (deleteSignGuide_loop ev org repo v w) = w_commits w"
  by (induction v arbitrary: w) (auto simp: cli_DeletePRComment_def split: option.splits)

lemma deleteSignGuide_calls:
  "w_calls (deleteSignGuide ev org repo n w) = w_calls w @ cleanup_calls ev org repo n w"
  by (auto simp: deleteSignGuide_def cli_ListPRComments_def cleanup_calls_def
        deleteSignGuide_loop_calls split: option.splits)

lemma deleteSignGuide_same [simp]:
  "w_labels (deleteSignGuide ev org repo n w) = w_labels w"
  "w_log (deleteSignGuide ev org repo n w) = w_log w"
  "w_commits (deleteSignGuide ev org repo n w) = w_commits w"
  by (auto simp: deleteSignGuide_def cli_ListPRComments_def split: option.splits)

lemma handle_abort:
  "getPRCommitsAbout ev org repo (Number pr) cfg w = (Inl e, w1) \<Longrightarrow>
   handle ev org repo pr cfg notify w = (Some e, w1)"
  by (simp add: handle_def)

lemma handle_calls:
  "getPRCommitsAbout ev org repo (Number pr) cfg w = (Inr unsigned, w1) \<Longrightarrow>
   w_calls (snd (handle ev org repo pr cfg notify w)) =
     w_calls w1 @ cleanup_calls ev org repo (Number pr) w1 @ verdict_calls org repo pr cfg notify unsigned"
  by (simp add: handle_def Let_def LabelsToSet_def verdict_calls_def deleteSignGuide_calls
        cli_RemovePRLabel_def cli_AddPRLabel_def cli_CreatePRComment_def split: option.splits)

lemma getPRCommitsAbout_run:
  assumes "getPRCommitsAbout ev org repo n cfg w = (r, w')"
  shows "\<exists>qs. w_calls w' = w_calls w @ GetPRCommits org repo n # map (query_call cfg) qs
      \<and> distinct qs
      \<and> set qs \<subseteq> {e \<in> resolved cfg ` set (w_commits w). IsValidEmail ev e}
      \<and> ((\<exists>u. r = Inr u) \<longrightarrow>
            set qs = {e \<in> resolved cfg ` set (w_commits w). IsValidEmail ev e}
            \<and> (\<forall>e\<in>set qs. \<exists>b. answer ev cfg w e = Inr b)
            \<and> fails ev (GetPRCommits org repo n) = None \<and> w_commits w \<noteq> [])
      \<and> (\<forall>err. r = Inl err \<longrightarrow>
            (fails ev (GetPRCommits org repo n) = Some err \<and> qs = [])
            \<or> (fails ev (GetPRCommits org repo n) = None \<and> w_commits w = []
                 \<and> err = CommitsEmpty \<and> qs = [])
            \<or> (fails ev (GetPRCommits org repo n) = None \<and> w_commits w \<noteq> []
                 \<and> qs \<noteq> [] \<and> answer ev cfg w (last qs) = Inl err))
      \<and> w_labels w' = w_labels w \<and> w_comments w' = w_comments w \<and> w_log w' = w_log w
      \<and> w_commits w' = w_commits w \<and> w_next_id w' = w_next_id w"
proof (cases "fails ev (GetPRCommits org repo n)")
  case (Some err)
  with assms have "r = Inl err" "w' = record_call (GetPRCommits org repo n) w"
    by (auto simp: getPRCommitsAbout_def cli_GetPRCommits_def)
  with Some show ?thesis by (intro exI[of _ "[]"]) simp
next
  case None
  let ?w1 = "record_call (GetPRCommits org repo n) w"
  show ?thesis
  proof (cases "w_commits w = []")
    case True
    with None assms have "r = Inl CommitsEmpty" "w' = ?w1"
      by (auto simp: getPRCommitsAbout_def cli_GetPRCommits_def)
    with None True show ?thesis by (intro exI[of _ "[]"]) simp
  next
    case False
    with None assms
    have "getPRCommitsAbout_loop ev cfg (w_commits w) Map.empty [] ?w1 = (r, w')"
      by (auto simp: getPRCommitsAbout_def cli_GetPRCommits_def)
    from loop_queries[OF this] show ?thesis
      apply (elim exE conjE)
      subgoal for qs
        using None False by (intro exI[of _ qs]) simp
      done
  qed
qed

lemma counts_unsigned_record_call [simp]:
  "counts_unsigned ev cfg (record_call c w) = counts_unsigned ev cfg w"
  by (rule ext) (simp add: counts_unsigned_def)

lemma getPRCommitsAbout_unsigned:
  assumes "getPRCommitsAbout ev org repo n cfg w = (Inr u, w')"
  shows "u = filter (counts_unsigned ev cfg w) (w_commits w)"
proof -
  let ?w1 = "record_call (GetPRCommits org repo n) w"
  from assms have "getPRCommitsAbout_loop ev cfg (w_commits w) Map.empty [] ?w1 = (Inr u, w')"
    by (auto simp: getPRCommitsAbout_def cli_GetPRCommits_def split: option.splits if_splits)
  from loop_unsigned[OF this] have "u = [] @ filter (counts_unsigned ev cfg ?w1) (w_commits w)"
    by simp
  then show ?thesis by simp
qed







lemma generateUnSignComment_loop_map:
  "generateUnSignComment_loop commits cs = cs @ map render_line commits"
  by (induction commits arbitrary: cs)
     (auto simp: render_line_def maxLengthOfSHA_def Let_def)

lemma generateUnSignComment_eq:
  "generateUnSignComment commits = Join (map render_line commits) [nl]"
  by (cases commits) (simp_all add: generateUnSignComment_def generateUnSignComment_loop_map)

lemma verdict_calls_last:
  "unsigned \<noteq> [] \<Longrightarrow>
   last (verdict_calls org repo pr cfg notify unsigned) =
     CreatePRComment org repo (Number pr)
       (signGuide (SignURL cfg) (generateUnSignComment unsigned) (FAQURL cfg))"
  by (simp add: verdict_calls_def)

lemma verdict_calls_nonempty: "unsigned \<noteq> [] \<Longrightarrow> verdict_calls org repo pr cfg notify unsigned \<noteq> []"
  by (simp add: verdict_calls_def)

lemma handle_new_calls:
  assumes "getPRCommitsAbout ev org repo (Number pr) cfg w = (Inr unsigned, w1)"
  shows "new_calls w1 (snd (handle ev org repo pr cfg notify w)) =
     cleanup_calls ev org repo (Number pr) w1 @ verdict_calls org repo pr cfg notify unsigned"
    and "\<exists>pre. new_calls w (snd (handle ev org repo pr cfg notify w)) =
     pre @ cleanup_calls ev org repo (Number pr) w1 @ verdict_calls org repo pr cfg notify unsigned
     \<and> list_all (\<lambda>c. \<not> is_mutation c) pre"
proof -
  show "new_calls w1 (snd (handle ev org repo pr cfg notify w)) =
     cleanup_calls ev org repo (Number pr) w1 @ verdict_calls org repo pr cfg notify unsigned"
    using handle_calls[OF assms] by (simp add: new_calls_def)
  from getPRCommitsAbout_run[OF assms] obtain qs where
    "w_calls w1 = w_calls w @ GetPRCommits org repo (Number pr) # map (query_call cfg) qs"
    by (elim exE conjE) 
  then show "\<exists>pre. new_calls w (snd (handle ev org repo pr cfg notify w)) =
     pre @ cleanup_calls ev org repo (Number pr) w1 @ verdict_calls org repo pr cfg notify unsigned
     \<and> list_all (\<lambda>c. \<not> is_mutation c) pre"
    using handle_calls[OF assms, of notify]
    by (intro exI[of _ "GetPRCommits org repo (Number pr) # map (query_call cfg) qs"])
       (simp add: new_calls_def list_all_iff query_call_def image_iff)
qed

lemma Join_listing: "Join (map render_line cs) [nl] = commit_listing cs"
  by (induction cs rule: commit_listing.induct) auto

lemma handle_labels:
  assumes "getPRCommitsAbout ev org repo (Number pr) cfg w = (Inr unsigned, w1)"
    and "\<forall>c. is_label_mutation c \<longrightarrow> fails ev c = None"
  shows "w_labels (snd (handle ev org repo pr cfg notify w)) =
     (if unsigned = []
      then (if CLALabelYes cfg \<in> set (Labels pr) then (\<lambda>L. L) else insert (CLALabelYes cfg))
             ((if CLALabelNo cfg \<in> set (Labels pr) then (\<lambda>L. L - {CLALabelNo cfg}) else (\<lambda>L. L))
                (w_labels w1))
      else (if CLALabelNo cfg \<in> set (Labels pr) then (\<lambda>L. L) else insert (CLALabelNo cfg))
             ((if CLALabelYes cfg \<in> set (Labels pr) then (\<lambda>L. L - {CLALabelYes cfg}) else (\<lambda>L. L))
                (w_labels w1)))"
  using assms
  by (simp add: handle_def Let_def LabelsToSet_def
        cli_RemovePRLabel_def cli_AddPRLabel_def cli_CreatePRComment_def split: option.splits)

lemma handle_labels_same:
  assumes "getPRCommitsAbout ev org repo (Number pr) cfg w = (Inr unsigned, w1)"
    and "if unsigned = [] then CLALabelYes cfg \<in> set (Labels pr) \<and> CLALabelNo cfg \<notin> set (Labels pr)
         else CLALabelNo cfg \<in> set (Labels pr) \<and> CLALabelYes cfg \<notin> set (Labels pr)"
  shows "w_labels (snd (handle ev org repo pr cfg notify w)) = w_labels w1"
  using assms
  by (simp add: handle_def Let_def LabelsToSet_def
        cli_RemovePRLabel_def cli_AddPRLabel_def cli_CreatePRComment_def split: option.splits if_splits)



lemma handle_comments:
  assumes "getPRCommitsAbout ev org repo (Number pr) cfg w = (Inr unsigned, w1)"
  shows "\<exists>new. w_comments (snd (handle ev org repo pr cfg notify w)) =
            w_comments (deleteSignGuide ev org repo (Number pr) w1) @ new
          \<and> (\<forall>c\<in>set new. verdict_calls org repo pr cfg notify unsigned \<noteq> []
                \<and> is_create (last (verdict_calls org repo pr cfg notify unsigned))
                \<and> CreatePRComment org repo (Number pr) (Body c)
                    = last (verdict_calls org repo pr cfg notify unsigned))"
  using assms
  by (simp add: handle_def Let_def LabelsToSet_def verdict_calls_def
        cli_RemovePRLabel_def cli_AddPRLabel_def cli_CreatePRComment_def split: option.splits)

lemma deleteSignGuide_loop_comments:
  "(\<forall>i. fails ev (DeletePRComment org repo i) = None) \<Longrightarrow>
   w_comments (deleteSignGuide_loop ev org repo v w) =
     filter (\<lambda>c. Id c \<notin> Id ` {x \<in> set v. isSignGuide (Body x)}) (w_comments w)"
proof (induction v arbitrary: w)
  case Nil
  then show ?case by simp
next
  case (Cons item v)
  show ?case
  proof (cases "isSignGuide (Body item)")
    case True
    have "w_comments (snd (cli_DeletePRComment ev org repo (Id item) w))
        = filter (\<lambda>c. Id c \<noteq> Id item) (w_comments w)"
      using Cons.prems by (simp add: cli_DeletePRComment_def)
    with True Cons.IH[OF Cons.prems] show ?thesis
      by (auto intro!: filter_cong)
  next
    case False
    with Cons.IH[OF Cons.prems] show ?thesis
      by (auto intro!: filter_cong)
  qed
qed

lemma deleteSignGuide_clean:
  assumes "fails ev (ListPRComments org repo n) = None"
    and "\<forall>i. fails ev (DeletePRComment org repo i) = None"
  shows "\<forall>c\<in>set (w_comments (deleteSignGuide ev org repo n w)). \<not> isSignGuide (Body c)"
  using assms
  by (auto simp: deleteSignGuide_def cli_ListPRComments_def deleteSignGuide_loop_comments)

lemma verdict_calls_kinds:
  "\<forall>c\<in>set (verdict_calls org repo pr cfg notify unsigned).
     (is_label_mutation c \<or> is_create c) \<and> guarded_by (set (Labels pr)) c"
  by (simp add: verdict_calls_def)

lemma cleanup_calls_kinds:
  "\<forall>c\<in>set (cleanup_calls ev org repo n w). \<not> is_label_mutation c \<and> \<not> is_create c"
  by (auto simp: cleanup_calls_def split: option.splits)

lemma not_mutation_kinds: "\<not> is_mutation c \<Longrightarrow> \<not> is_label_mutation c \<and> \<not> is_create c"
  by (cases c) auto

lemma guarded_by_other: "\<not> is_label_mutation c \<Longrightarrow> guarded_by L c"
  by (cases c) auto

lemma alreadySigned_not_guide: "\<not> isSignGuide (alreadySigned user)"
  by (simp add: isSignGuide_def HasPrefix_def alreadySigned_def signGuideTitle_def prefixOld_def)

lemma verdict_last_guide:
  assumes "verdict_calls org repo pr cfg notify unsigned \<noteq> []"
    and "is_create (last (verdict_calls org repo pr cfg notify unsigned))"
    and "CreatePRComment org repo (Number pr) b = last (verdict_calls org repo pr cfg notify unsigned)"
    and "isSignGuide b"
  shows "unsigned \<noteq> [] \<and> b = signGuide (SignURL cfg) (generateUnSignComment unsigned) (FAQURL cfg)"
  using assms alreadySigned_not_guide[of "UserLogin pr"]
  by (auto simp: verdict_calls_def split: if_splits)

lemma mutations_succeed_simps [simp]:
  "http_Get (mutations_succeed ev) = http_Get ev"
  "IsValidEmail (mutations_succeed ev) = IsValidEmail ev"
  "json_Unmarshal (mutations_succeed ev) = json_Unmarshal ev"
  "fails (mutations_succeed ev) c = (if is_mutation c then None else fails ev c)"
  by (simp_all add: mutations_succeed_def)

lemma isSigned_mutations_succeed [simp]:
  "isSigned (mutations_succeed ev) = isSigned ev"
  by (intro ext) (simp add: isSigned_def Let_def split: sum.splits)






section \<open>Facts about the trigger pattern\<close>

lemma swap_case_nl: "swap_case p = nl \<longleftrightarrow> p = nl"
  by (simp add: swap_case_def nl_def)

lemma tail_match:
  "match_here [StarSpace, EndLine] prev s = list_all is_space (first_line s)"
proof (induction s arbitrary: prev)
  case Nil
  then show ?case by simp
next
  case (Cons x xs)
  show ?case
  proof (cases "x = nl")
    case True
    then show ?thesis by simp
  next
    case False
    then show ?thesis using Cons.IH[of "Some x"] by simp
  qed
qed

lemma fold_step_first_line:
  "p \<noteq> nl \<Longrightarrow>
   fold_step p (first_line s) = map_option (\<lambda>(u, r). (u, first_line r)) (fold_step p s)"
proof (cases s)
  case Nil
  then show ?thesis by simp
next
  case (Cons x xs)
  assume p: "p \<noteq> nl"
  have E2: "CHR 0xE2 \<noteq> nl" "CHR 0x84 \<noteq> nl" "CHR 0xAA \<noteq> nl" by (simp_all add: nl_def)
  show ?thesis
  proof (cases "x = nl")
    case True
    with p Cons E2 swap_case_nl[of p] show ?thesis by auto
  next
    case False
    with p Cons E2 show ?thesis
      by (auto split: list.splits)
  qed
qed

lemma fold_prefix_first_line:
  "nl \<notin> set ps \<Longrightarrow>
   fold_prefix ps (first_line s) = map_option first_line (fold_prefix ps s)"
proof (induction ps arbitrary: s)
  case Nil
  then show ?case by simp
next
  case (Cons p ps)
  then have p: "p \<noteq> nl" and ps: "nl \<notin> set ps" by auto
  show ?case
    using fold_step_first_line[OF p, of s] Cons.IH[OF ps]
    by (cases "fold_step p s") auto
qed

lemma literal_match:
  "match_here (map FoldLit ps @ [StarSpace, EndLine]) prev s =
     (case fold_prefix ps s of None \<Rightarrow> False | Some rest \<Rightarrow> list_all is_space (first_line rest))"
proof (induction ps arbitrary: prev s)
  case Nil
  then show ?case by (simp add: tail_match del: match_here.simps)
next
  case (Cons p ps)
  show ?case
    by (cases "fold_step p s") (auto simp: Cons.IH)
qed

lemma first_line_no_nl: "first_line (first_line s) = first_line s"
  by (rule takeWhile_idem)

lemma match_here_checkCLARe:
  "match_here checkCLARe prev s =
     ((prev = None \<or> prev = Some nl) \<and> is_check_cla_line (first_line s))"
proof -
  have nonl: "nl \<notin> set ''/check-cla''" by (simp add: nl_def)
  have "match_here checkCLARe prev s =
      ((prev = None \<or> prev = Some nl) \<and>
       match_here (map FoldLit ''/check-cla'' @ [StarSpace, EndLine]) prev s)"
    unfolding checkCLARe_def by (simp only: match_here.simps)
  also have "match_here (map FoldLit ''/check-cla'' @ [StarSpace, EndLine]) prev s
      = is_check_cla_line (first_line s)"
    unfolding literal_match is_check_cla_line_def fold_prefix_first_line[OF nonl]
    by (cases "fold_prefix ''/check-cla'' s") (simp_all add: first_line_no_nl)
  finally show ?thesis .
qed

lemma lines_of_nonempty: "lines_of s \<noteq> []"
  by (induction s) auto

lemma hd_lines_of: "hd (lines_of s) = first_line s"
  by (induction s) auto

lemma search_checkCLARe:
  "search checkCLARe prev s =
     (((prev = None \<or> prev = Some nl) \<and> is_check_cla_line (hd (lines_of s)))
      \<or> (\<exists>l\<in>set (tl (lines_of s)). is_check_cla_line l))"
proof (induction s arbitrary: prev)
  case Nil
  then show ?case by (simp add: match_here_checkCLARe)
next
  case (Cons x xs)
  have ex: "(\<exists>l\<in>set (lines_of xs). is_check_cla_line l) =
      (is_check_cla_line (hd (lines_of xs)) \<or> (\<exists>l\<in>set (tl (lines_of xs)). is_check_cla_line l))"
    using lines_of_nonempty[of xs] by (cases "lines_of xs") auto
  show ?case
  proof (cases "x = nl")
    case True
    then show ?thesis
      using Cons.IH[of "Some x"] ex by (simp add: match_here_checkCLARe)
  next
    case False
    then show ?thesis
      using Cons.IH[of "Some x"] by (simp add: match_here_checkCLARe hd_lines_of)
  qed
qed

lemma MatchString_checkCLARe:
  "MatchString checkCLARe s = (\<exists>l\<in>set (lines_of s). is_check_cla_line l)"
  using lines_of_nonempty[of s]
  by (cases "lines_of s") (auto simp: MatchString_def search_checkCLARe)

lemma command_line_starts_with_slash:
  "is_check_cla_line l \<Longrightarrow> \<exists>rest. l = CHR ''/'' # rest"
  by (cases l) (auto simp: is_check_cla_line_def swap_case_def split: if_splits option.splits)

lemma handle_ignores_state:
  "handle ev org repo (pr\<lparr>State := s\<rparr>) cfg notify w = handle ev org repo pr cfg notify w"
  by (simp add: handle_def LabelsToSet_def Let_def split: prod.splits sum.splits)

section \<open>Fatal errors\<close>

text \<open>
  C1: if the commit list is empty, or a query to the signing service fails, then
  \<open>handle\<close> returns that error (for a failed query: the error of the query made last),
  no label or comment call is made in the pass, and the labels and comments of the pull
  request are as before; the commits already classified are not used.
\<close>

theorem handle_fatal_no_mutation:
  assumes fetch: "fails ev (GetPRCommits org repo (Number pr)) = None"
    and bad: "w_commits w = [] \<or>
        (\<exists>c\<in>set (w_commits w). IsValidEmail ev (resolved cfg c) \<and>
           (\<exists>err. answer ev cfg w (resolved cfg c) = Inl err))"
  shows "(\<exists>err. fst (handle ev org repo pr cfg notify w) = Some err \<and>
            (if w_commits w = [] then err = CommitsEmpty
             else \<exists>email. last (w_calls (snd (handle ev org repo pr cfg notify w))) = query_call cfg email
                    \<and> answer ev cfg w email = Inl err))
       \<and> list_all (\<lambda>c. \<not> is_mutation c) (new_calls w (snd (handle ev org repo pr cfg notify w)))
       \<and> w_labels (snd (handle ev org repo pr cfg notify w)) = w_labels w
       \<and> w_comments (snd (handle ev org repo pr cfg notify w)) = w_comments w"
proof -
  obtain r w1 where g: "getPRCommitsAbout ev org repo (Number pr) cfg w = (r, w1)"
    by (cases "getPRCommitsAbout ev org repo (Number pr) cfg w")
  from getPRCommitsAbout_run[OF g] show ?thesis
  proof (elim exE conjE)
    fix qs
    assume calls: "w_calls w1 = w_calls w @ GetPRCommits org repo (Number pr) # map (query_call cfg) qs"
      and sub: "set qs \<subseteq> {e \<in> resolved cfg ` set (w_commits w). IsValidEmail ev e}"
      and ok: "(\<exists>u. r = Inr u) \<longrightarrow>
            set qs = {e \<in> resolved cfg ` set (w_commits w). IsValidEmail ev e}
            \<and> (\<forall>e\<in>set qs. \<exists>b. answer ev cfg w e = Inr b)
            \<and> fails ev (GetPRCommits org repo (Number pr)) = None \<and> w_commits w \<noteq> []"
      and ko: "\<forall>err. r = Inl err \<longrightarrow>
            (fails ev (GetPRCommits org repo (Number pr)) = Some err \<and> qs = [])
            \<or> (fails ev (GetPRCommits org repo (Number pr)) = None \<and> w_commits w = []
                 \<and> err = CommitsEmpty \<and> qs = [])
            \<or> (fails ev (GetPRCommits org repo (Number pr)) = None \<and> w_commits w \<noteq> []
                 \<and> qs \<noteq> [] \<and> answer ev cfg w (last qs) = Inl err)"
      and same: "w_labels w1 = w_labels w" "w_comments w1 = w_comments w"
    have "\<not> (\<exists>u. r = Inr u)"
    proof
      assume "\<exists>u. r = Inr u"
      with ok have full: "set qs = {e \<in> resolved cfg ` set (w_commits w). IsValidEmail ev e}"
        and ans: "\<forall>e\<in>set qs. \<exists>b. answer ev cfg w e = Inr b" and ne: "w_commits w \<noteq> []"
        by auto
      from bad ne obtain c err where "c \<in> set (w_commits w)" "IsValidEmail ev (resolved cfg c)"
        "answer ev cfg w (resolved cfg c) = Inl err" by auto
      with full ans show False by force
    qed
    then obtain err where r: "r = Inl err" by (cases r) auto
    with g have h: "handle ev org repo pr cfg notify w = (Some err, w1)"
      by (simp add: handle_abort)
    have nomut: "list_all (\<lambda>c. \<not> is_mutation c) (new_calls w w1)"
      using calls by (simp add: new_calls_def list_all_iff query_call_def image_iff) 
    have which: "if w_commits w = [] then err = CommitsEmpty
             else \<exists>email. last (w_calls w1) = query_call cfg email \<and> answer ev cfg w email = Inl err"
      using ko r fetch calls by (auto simp: last_map)
    show ?thesis using h nomut which same by simp
  qed
qed

theorem handle_fatal_no_mutation_witness:
  "fst (handle env0 ''org'' ''repo'' (pr0 [''cla/no'']) cfg0 True
        (world0 [commit0 ''aaaaaaaaaa'' ''a@x.com'' ''one'',
                 commit0 ''bbbbbbbbbb'' ''down@x.com'' ''two''] [''cla/no'']))
     = Some (HttpGetError ''timeout'')
   \<and> list_all (\<lambda>c. \<not> is_mutation c)
        (new_calls (world0 [commit0 ''aaaaaaaaaa'' ''a@x.com'' ''one'',
                            commit0 ''bbbbbbbbbb'' ''down@x.com'' ''two''] [''cla/no''])
           (snd (handle env0 ''org'' ''repo'' (pr0 [''cla/no'']) cfg0 True
              (world0 [commit0 ''aaaaaaaaaa'' ''a@x.com'' ''one'',
                       commit0 ''bbbbbbbbbb'' ''down@x.com'' ''two''] [''cla/no'']))))
   \<and> w_labels (snd (handle env0 ''org'' ''repo'' (pr0 [''cla/no'']) cfg0 True
        (world0 [commit0 ''aaaaaaaaaa'' ''a@x.com'' ''one'',
                 commit0 ''bbbbbbbbbb'' ''down@x.com'' ''two''] [''cla/no''])))
     = {''cla/no''}"
proof -
  let ?w = "world0 [commit0 ''aaaaaaaaaa'' ''a@x.com'' ''one'',
                    commit0 ''bbbbbbbbbb'' ''down@x.com'' ''two''] [''cla/no'']"
  have fetch: "fails env0 (GetPRCommits ''org'' ''repo'' (Number (pr0 [''cla/no'']))) = None"
    by (simp add: env0_def)
  have bad: "w_commits ?w = [] \<or>
      (\<exists>c\<in>set (w_commits ?w). IsValidEmail env0 (resolved cfg0 c) \<and>
         (\<exists>err. answer env0 cfg0 ?w (resolved cfg0 c) = Inl err))"
    by (simp add: resolved_def answer_def run_defs)
  have result: "fst (handle env0 ''org'' ''repo'' (pr0 [''cla/no'']) cfg0 True ?w)
      = Some (HttpGetError ''timeout'')"
    by (simp add: run_defs)
  have labels: "w_labels ?w = {''cla/no''}"
    by (simp add: world0_def)
  from handle_fatal_no_mutation[OF fetch bad, of True] result labels
  show ?thesis by simp
qed

section \<open>Signature queries\<close>




section \<open>Identity resolution\<close>

text \<open>
  C3: for every commit the resolved email is the committer's email when checking by
  committer is on, the commit has a committer and the lite-PR test on the committer's
  email and name is false; otherwise the author's email when there is an author;
  otherwise the empty string. The lite-PR test is true exactly when the email equals the
  configured email or the name equals the configured name.
\<close>

theorem getAuthorOfCommit_resolves:
  "getAuthorOfCommit (Some pc) byCommitter (isLitePR l) = resolveIdentity pc byCommitter (isLitePR l)
   \<and> (isLitePR l email name \<longleftrightarrow> email = lpEmail l \<or> name = lpName l)"
  by (auto simp: getAuthorOfCommit_def resolveIdentity_def has_committer_def has_author_def
        committer_of_def author_of_def isLitePR_def split: option.splits)

section \<open>Idempotence\<close>

text \<open>
  C4: every label call of a pass is guarded by membership in the labels of the hook: a
  label is added only when absent and removed only when present. So a pass that finds
  the labels already right for its verdict makes no label call and leaves the labels as
  they are; and whenever the verdict is Unsigned the pass ends by posting a fresh
  guidance comment.
\<close>

theorem rerun_makes_no_label_call:
  assumes "getPRCommitsAbout ev org repo (Number pr) cfg w = (Inr unsigned, w1)"
  shows "(\<forall>c\<in>set (new_calls w (snd (handle ev org repo pr cfg notify w))).
            guarded_by (set (Labels pr)) c)
       \<and> ((if unsigned = []
            then CLALabelYes cfg \<in> set (Labels pr) \<and> CLALabelNo cfg \<notin> set (Labels pr)
            else CLALabelNo cfg \<in> set (Labels pr) \<and> CLALabelYes cfg \<notin> set (Labels pr))
           \<longrightarrow> list_all (\<lambda>c. \<not> is_label_mutation c)
                 (new_calls w (snd (handle ev org repo pr cfg notify w)))
               \<and> w_labels (snd (handle ev org repo pr cfg notify w)) = w_labels w)
       \<and> (unsigned \<noteq> [] \<longrightarrow>
            last (new_calls w (snd (handle ev org repo pr cfg notify w))) =
              CreatePRComment org repo (Number pr)
                (signGuide (SignURL cfg) (generateUnSignComment unsigned) (FAQURL cfg)))"
proof -
  let ?calls = "new_calls w (snd (handle ev org repo pr cfg notify w))"
  let ?v = "verdict_calls org repo pr cfg notify unsigned"
  let ?c = "cleanup_calls ev org repo (Number pr) w1"
  from handle_new_calls(2)[OF assms, of notify] obtain pre where
    calls: "?calls = pre @ ?c @ ?v" and pre: "list_all (\<lambda>c. \<not> is_mutation c) pre"
    by blast
  have other: "\<forall>c\<in>set (pre @ ?c). \<not> is_label_mutation c"
    using pre cleanup_calls_kinds[of ev org repo "Number pr" w1] not_mutation_kinds
    by (auto simp: list_all_iff)
  have guard: "\<forall>c\<in>set ?calls. guarded_by (set (Labels pr)) c"
    using other verdict_calls_kinds[of org repo pr cfg notify unsigned] guarded_by_other
    unfolding calls by auto
  have same: "list_all (\<lambda>c. \<not> is_label_mutation c) ?calls
               \<and> w_labels (snd (handle ev org repo pr cfg notify w)) = w_labels w"
    if ok: "if unsigned = []
            then CLALabelYes cfg \<in> set (Labels pr) \<and> CLALabelNo cfg \<notin> set (Labels pr)
            else CLALabelNo cfg \<in> set (Labels pr) \<and> CLALabelYes cfg \<notin> set (Labels pr)"
  proof -
    have "\<forall>c\<in>set ?v. \<not> is_label_mutation c"
      using ok by (auto simp: verdict_calls_def split: if_splits)
    with other have "list_all (\<lambda>c. \<not> is_label_mutation c) ?calls"
      unfolding calls by (auto simp: list_all_iff)
    moreover have "w_labels w1 = w_labels w"
      using getPRCommitsAbout_run[OF assms] by (elim exE conjE)
    ultimately show ?thesis
      using handle_labels_same[OF assms ok, of notify] by simp
  qed
  have post: "last ?calls = CreatePRComment org repo (Number pr)
                (signGuide (SignURL cfg) (generateUnSignComment unsigned) (FAQURL cfg))"
    if ne: "unsigned \<noteq> []"
    unfolding calls using verdict_calls_nonempty[OF ne] verdict_calls_last[OF ne] by simp
  show ?thesis using guard same post by blast
qed

theorem rerun_makes_no_label_call_witness:
  "new_calls (world0 [commit0 ''1111111111'' ''b@x.com'' ''fix''] [''cla/no''])
     (snd (handle env0 ''org'' ''repo'' (pr0 [''cla/no'']) cfg0 True
        (world0 [commit0 ''1111111111'' ''b@x.com'' ''fix''] [''cla/no''])))
   = [GetPRCommits ''org'' ''repo'' 7, HttpGet ''https://cla.example/check?email=b@x.com'',
      ListPRComments ''org'' ''repo'' 7, DeletePRComment ''org'' ''repo'' 2,
      CreatePRComment ''org'' ''repo'' 7
        (signGuide ''https://cla.example/sign''
           (generateUnSignComment [commit0 ''1111111111'' ''b@x.com'' ''fix''])
           ''https://cla.example/faq'')]
   \<and> list_all (\<lambda>c. \<not> is_label_mutation c)
        (new_calls (world0 [commit0 ''1111111111'' ''b@x.com'' ''fix''] [''cla/no''])
           (snd (handle env0 ''org'' ''repo'' (pr0 [''cla/no'']) cfg0 True
              (world0 [commit0 ''1111111111'' ''b@x.com'' ''fix''] [''cla/no'']))))
   \<and> w_labels (snd (handle env0 ''org'' ''repo'' (pr0 [''cla/no'']) cfg0 True
        (world0 [commit0 ''1111111111'' ''b@x.com'' ''fix''] [''cla/no''])))
      = w_labels (world0 [commit0 ''1111111111'' ''b@x.com'' ''fix''] [''cla/no''])"
proof -
  let ?w = "world0 [commit0 ''1111111111'' ''b@x.com'' ''fix''] [''cla/no'']"
  let ?u = "[commit0 ''1111111111'' ''b@x.com'' ''fix'']"
  have res: "getPRCommitsAbout env0 ''org'' ''repo'' (Number (pr0 [''cla/no''])) cfg0 ?w
      = (Inr ?u, snd (getPRCommitsAbout env0 ''org'' ''repo'' (Number (pr0 [''cla/no''])) cfg0 ?w))"
    by (simp add: prod_eq_iff run_defs)
  have ok: "if ?u = []
            then CLALabelYes cfg0 \<in> set (Labels (pr0 [''cla/no'']))
               \<and> CLALabelNo cfg0 \<notin> set (Labels (pr0 [''cla/no'']))
            else CLALabelNo cfg0 \<in> set (Labels (pr0 [''cla/no'']))
               \<and> CLALabelYes cfg0 \<notin> set (Labels (pr0 [''cla/no'']))"
    by (simp add: cfg0_def pr0_def)
  have calls: "new_calls ?w (snd (handle env0 ''org'' ''repo'' (pr0 [''cla/no'']) cfg0 True ?w))
     = [GetPRCommits ''org'' ''repo'' 7, HttpGet ''https://cla.example/check?email=b@x.com'',
      ListPRComments ''org'' ''repo'' 7, DeletePRComment ''org'' ''repo'' 2,
      CreatePRComment ''org'' ''repo'' 7
        (signGuide ''https://cla.example/sign'' (generateUnSignComment ?u) ''https://cla.example/faq'')]"
    by (simp add: new_calls_def run_defs signGuideTitle_def prefixOld_def)
  from rerun_makes_no_label_call[OF res, of True] ok calls
  show ?thesis by blast
qed

section \<open>Label state after a pass\<close>

text \<open>
  C5 (amended): after a pass whose signature resolution succeeded (so there is at least
  one commit), when the labels of the hook are the labels of the pull request, the two
  label names differ and no label call fails, exactly one of the two labels is on the
  pull request: the signed label when no commit is unsigned, the unsigned label
  otherwise.
\<close>

theorem exactly_one_cla_label:
  assumes "getPRCommitsAbout ev org repo (Number pr) cfg w = (Inr unsigned, w1)"
    and "set (Labels pr) = w_labels w"
    and "CLALabelYes cfg \<noteq> CLALabelNo cfg"
    and "\<forall>c. is_label_mutation c \<longrightarrow> fails ev c = None"
  shows "(CLALabelYes cfg \<in> w_labels (snd (handle ev org repo pr cfg notify w))) = (unsigned = [])
       \<and> (CLALabelNo cfg \<in> w_labels (snd (handle ev org repo pr cfg notify w))) = (unsigned \<noteq> [])"
proof -
  have "w_labels w1 = w_labels w"
    using getPRCommitsAbout_run[OF assms(1)] by (elim exE conjE)
  with handle_labels[OF assms(1) assms(4), of notify] assms(2,3)
  show ?thesis by auto
qed

theorem exactly_one_cla_label_witness:
  "CLALabelYes cfg0 \<in> w_labels (snd (handle env0 ''org'' ''repo'' (pr0 [''cla/no'']) cfg0 False
        (world0 [commit0 ''abcdef1234'' ''a@x.com'' ''fix''] [''cla/no''])))
   \<and> CLALabelNo cfg0 \<notin> w_labels (snd (handle env0 ''org'' ''repo'' (pr0 [''cla/no'']) cfg0 False
        (world0 [commit0 ''abcdef1234'' ''a@x.com'' ''fix''] [''cla/no''])))"
proof -
  let ?w = "world0 [commit0 ''abcdef1234'' ''a@x.com'' ''fix''] [''cla/no'']"
  have res: "getPRCommitsAbout env0 ''org'' ''repo'' (Number (pr0 [''cla/no''])) cfg0 ?w
      = (Inr [], snd (getPRCommitsAbout env0 ''org'' ''repo'' (Number (pr0 [''cla/no''])) cfg0 ?w))"
    by (simp add: prod_eq_iff run_defs)
  have hook: "set (Labels (pr0 [''cla/no''])) = w_labels ?w"
    by (simp add: pr0_def world0_def)
  have names: "CLALabelYes cfg0 \<noteq> CLALabelNo cfg0"
    by (simp add: cfg0_def)
  have nofail: "\<forall>c. is_label_mutation c \<longrightarrow> fails env0 c = None"
    by (simp add: env0_def)
  from exactly_one_cla_label[OF res hook names nofail, of False]
  show ?thesis by simp
qed

text \<open>As first stated the claim fails: a label call that fails is only logged, so a pass
  can end without a fatal error and leave neither label.\<close>

theorem exactly_one_cla_label_counterexample:
  "w_commits (world0 [commit0 ''abcdef1234'' ''a@x.com'' ''fix''] []) \<noteq> []
   \<and> fst (handle env_label_down ''org'' ''repo'' (pr0 []) cfg0 False
        (world0 [commit0 ''abcdef1234'' ''a@x.com'' ''fix''] [])) = None
   \<and> CLALabelYes cfg0 \<notin> w_labels (snd (handle env_label_down ''org'' ''repo'' (pr0 []) cfg0 False
        (world0 [commit0 ''abcdef1234'' ''a@x.com'' ''fix''] [])))
   \<and> CLALabelNo cfg0 \<notin> w_labels (snd (handle env_label_down ''org'' ''repo'' (pr0 []) cfg0 False
        (world0 [commit0 ''abcdef1234'' ''a@x.com'' ''fix''] [])))"
  by (simp add: run_defs signGuideTitle_def prefixOld_def)

section \<open>The guidance comment\<close>

text \<open>
  C6: when the unsigned set is not empty, the pass ends by posting the guidance comment:
  the fixed title, then one line per unsigned commit, each the first eight characters of
  the SHA in bold, a bar and the commit message, joined by line feeds, then the FAQ link
  and the sign link of the configuration. The unsigned commits are the commits of the
  listing that count as unsigned, in the order of the listing.
\<close>

theorem guidance_comment_lists_unsigned:
  assumes "getPRCommitsAbout ev org repo (Number pr) cfg w = (Inr unsigned, w1)"
    and "unsigned \<noteq> []"
  shows "last (new_calls w (snd (handle ev org repo pr cfg notify w))) =
           CreatePRComment org repo (Number pr)
             (signGuideTitle @ [nl, nl] @ commit_listing unsigned @ [nl, nl] @
              ''Please check the [**FAQs**]('' @ FAQURL cfg @ '') first.'' @ [nl] @
              ''You can click [**here**]('' @ SignURL cfg @
              '') to sign the CLA. After signing the CLA, you must comment '' @ [CHR 0x22] @
              ''/check-cla'' @ [CHR 0x22] @ '' to check the CLA status again.'')
       \<and> unsigned = filter (counts_unsigned ev cfg w) (w_commits w)"
proof -
  from handle_new_calls(2)[OF assms(1), of notify] obtain pre where
    "new_calls w (snd (handle ev org repo pr cfg notify w)) =
     pre @ cleanup_calls ev org repo (Number pr) w1 @ verdict_calls org repo pr cfg notify unsigned"
    by blast
  then have "last (new_calls w (snd (handle ev org repo pr cfg notify w))) =
      last (verdict_calls org repo pr cfg notify unsigned)"
    using verdict_calls_nonempty[OF assms(2)] by simp
  then show ?thesis
    using verdict_calls_last[OF assms(2)] getPRCommitsAbout_unsigned[OF assms(1)]
    by (simp add: signGuide_def generateUnSignComment_eq Join_listing)
qed

theorem guidance_comment_lists_unsigned_witness:
  "last (new_calls
          (world0 [commit0 ''1111111111'' [] ''fix'', commit0 ''2222222222'' ''a@x.com'' ''signed'',
                   commit0 ''abcdef1234'' ''b@x.com'' ''second''] [])
          (snd (handle env0 ''org'' ''repo'' (pr0 []) cfg0 True
             (world0 [commit0 ''1111111111'' [] ''fix'', commit0 ''2222222222'' ''a@x.com'' ''signed'',
                      commit0 ''abcdef1234'' ''b@x.com'' ''second''] []))))
   = CreatePRComment ''org'' ''repo'' 7
       (signGuideTitle @ [nl, nl] @ ''**11111111** | fix'' @ [nl] @ ''**abcdef12** | second'' @
        [nl, nl] @ ''Please check the [**FAQs**](https://cla.example/faq) first.'' @ [nl] @
        ''You can click [**here**](https://cla.example/sign) to sign the CLA. '' @
        ''After signing the CLA, you must comment '' @ [CHR 0x22] @ ''/check-cla'' @ [CHR 0x22] @
        '' to check the CLA status again.'')"
proof -
  let ?w = "world0 [commit0 ''1111111111'' [] ''fix'', commit0 ''2222222222'' ''a@x.com'' ''signed'',
                    commit0 ''abcdef1234'' ''b@x.com'' ''second''] []"
  let ?u = "[commit0 ''1111111111'' [] ''fix'', commit0 ''abcdef1234'' ''b@x.com'' ''second'']"
  have res: "getPRCommitsAbout env0 ''org'' ''repo'' (Number (pr0 [])) cfg0 ?w
      = (Inr ?u, snd (getPRCommitsAbout env0 ''org'' ''repo'' (Number (pr0 [])) cfg0 ?w))"
    by (simp add: prod_eq_iff run_defs)
  have ne: "?u \<noteq> []" by simp
  from guidance_comment_lists_unsigned[OF res ne, of True]
  show ?thesis
    by (simp add: render_line_def commit0_def cfg0_def pr0_def)
qed

section \<open>Clean-up of guidance comments\<close>

text \<open>
  C7 (amended): on every pass whose signature resolution succeeded, when the comments of
  the pull request can be listed, one delete call is made for every listed comment whose
  body starts with the current title or with the legacy prefix; these calls come after
  the fetches and before every label call and every comment creation, whatever the
  verdict. If moreover no delete call fails, the only guidance comment left after the
  pass is the one the pass has just posted.
\<close>

theorem stale_guidance_deleted_first:
  assumes "getPRCommitsAbout ev org repo (Number pr) cfg w = (Inr unsigned, w1)"
    and "fails ev (ListPRComments org repo (Number pr)) = None"
  shows "(\<exists>pre post. new_calls w (snd (handle ev org repo pr cfg notify w)) =
            pre @ ListPRComments org repo (Number pr) #
            map (\<lambda>c. DeletePRComment org repo (Id c))
              (filter (\<lambda>c. isSignGuide (Body c)) (w_comments w)) @ post
          \<and> list_all (\<lambda>c. \<not> is_mutation c) pre
          \<and> list_all (\<lambda>c. is_label_mutation c \<or> is_create c) post)
       \<and> ((\<forall>i. fails ev (DeletePRComment org repo i) = None) \<longrightarrow>
            (\<forall>c\<in>set (w_comments (snd (handle ev org repo pr cfg notify w))).
               isSignGuide (Body c) \<longrightarrow>
                 unsigned \<noteq> [] \<and>
                 Body c = signGuide (SignURL cfg) (generateUnSignComment unsigned) (FAQURL cfg)))"
proof -
  let ?v = "verdict_calls org repo pr cfg notify unsigned"
  have w1: "w_comments w1 = w_comments w"
    using getPRCommitsAbout_run[OF assms(1)] by (elim exE conjE)
  from handle_new_calls(2)[OF assms(1), of notify] obtain pre where
    calls: "new_calls w (snd (handle ev org repo pr cfg notify w)) =
       pre @ cleanup_calls ev org repo (Number pr) w1 @ ?v"
    and pre: "list_all (\<lambda>c. \<not> is_mutation c) pre"
    by blast
  have post: "list_all (\<lambda>c. is_label_mutation c \<or> is_create c) ?v"
    using verdict_calls_kinds[of org repo pr cfg notify unsigned] by (simp add: list_all_iff)
  have first: "\<exists>pre post. new_calls w (snd (handle ev org repo pr cfg notify w)) =
            pre @ ListPRComments org repo (Number pr) #
            map (\<lambda>c. DeletePRComment org repo (Id c))
              (filter (\<lambda>c. isSignGuide (Body c)) (w_comments w)) @ post
          \<and> list_all (\<lambda>c. \<not> is_mutation c) pre
          \<and> list_all (\<lambda>c. is_label_mutation c \<or> is_create c) post"
    using calls pre post assms(2) w1
    by (intro exI[of _ pre] exI[of _ ?v]) (simp add: cleanup_calls_def)
  have second: "\<forall>c\<in>set (w_comments (snd (handle ev org repo pr cfg notify w))).
               isSignGuide (Body c) \<longrightarrow>
                 unsigned \<noteq> [] \<and>
                 Body c = signGuide (SignURL cfg) (generateUnSignComment unsigned) (FAQURL cfg)"
    if del: "\<forall>i. fails ev (DeletePRComment org repo i) = None"
  proof -
    from handle_comments[OF assms(1), of notify] obtain new where
      cs: "w_comments (snd (handle ev org repo pr cfg notify w)) =
            w_comments (deleteSignGuide ev org repo (Number pr) w1) @ new"
      and new: "\<forall>c\<in>set new. ?v \<noteq> [] \<and> is_create (last ?v)
                \<and> CreatePRComment org repo (Number pr) (Body c) = last ?v"
      by blast
    show ?thesis
    proof (intro ballI impI)
      fix c
      assume c: "c \<in> set (w_comments (snd (handle ev org repo pr cfg notify w)))"
        and g: "isSignGuide (Body c)"
      from c g cs deleteSignGuide_clean[OF assms(2) del, of w1] have "c \<in> set new"
        by auto
      with new have "?v \<noteq> []" "is_create (last ?v)"
        "CreatePRComment org repo (Number pr) (Body c) = last ?v" by auto
      from verdict_last_guide[OF this g]
      show "unsigned \<noteq> [] \<and>
                 Body c = signGuide (SignURL cfg) (generateUnSignComment unsigned) (FAQURL cfg)" .
    qed
  qed
  show ?thesis using first second by blast
qed

theorem stale_guidance_deleted_first_witness:
  "\<not> (\<exists>c\<in>set (w_comments (snd (handle env0 ''org'' ''repo'' (pr0 [''cla/no'']) cfg0 False
        (world0 [commit0 ''abcdef1234'' ''a@x.com'' ''fix''] [''cla/no''])))).
     isSignGuide (Body c))"
proof -
  let ?w = "world0 [commit0 ''abcdef1234'' ''a@x.com'' ''fix''] [''cla/no'']"
  have res: "getPRCommitsAbout env0 ''org'' ''repo'' (Number (pr0 [''cla/no''])) cfg0 ?w
      = (Inr [], snd (getPRCommitsAbout env0 ''org'' ''repo'' (Number (pr0 [''cla/no''])) cfg0 ?w))"
    by (simp add: prod_eq_iff run_defs)
  have listing: "fails env0 (ListPRComments ''org'' ''repo'' (Number (pr0 [''cla/no'']))) = None"
    by (simp add: env0_def)
  have del: "\<forall>i. fails env0 (DeletePRComment ''org'' ''repo'' i) = None"
    by (simp add: env0_def)
  from stale_guidance_deleted_first[OF res listing, of False] del
  show ?thesis by blast
qed

text \<open>As first stated the claim fails: a query that fails after a successful, non-empty
  fetch ends the pass before the clean-up, and the earlier guidance comment stays.\<close>

theorem stale_guidance_deleted_first_counterexample:
  "fst (cli_GetPRCommits env0 ''org'' ''repo'' 7
          (world0 [commit0 ''abcdef1234'' ''down@x.com'' ''fix''] []))
     = Inr [commit0 ''abcdef1234'' ''down@x.com'' ''fix'']
   \<and> \<lparr>Id = 2, Body = signGuideTitle @ ''...''\<rparr>
        \<in> set (w_comments (snd (handle env0 ''org'' ''repo'' (pr0 []) cfg0 True
                   (world0 [commit0 ''abcdef1234'' ''down@x.com'' ''fix''] []))))
   \<and> isSignGuide (signGuideTitle @ ''...'')
   \<and> DeletePRComment ''org'' ''repo'' 2
        \<notin> set (w_calls (snd (handle env0 ''org'' ''repo'' (pr0 []) cfg0 True
                   (world0 [commit0 ''abcdef1234'' ''down@x.com'' ''fix''] []))))"
  by (simp add: run_defs)

section \<open>The comment trigger\<close>

text \<open>
  C8 (amended): a comment event leads to a reconciliation exactly when it creates a
  comment, is on a pull request, a configuration exists for the repository, and some
  line of the body (the body split at line feeds) consists of /check-cla, in any letter
  case, followed by nothing but white space. Such a line starts with the slash: white
  space before the command prevents the match.
\<close>

theorem comment_trigger:
  "MatchString checkCLARe body = (\<exists>l\<in>set (lines_of body). is_check_cla_line l)
   \<and> (\<forall>l. is_check_cla_line l \<longrightarrow> (\<exists>rest. l = CHR ''/'' # rest))
   \<and> handleNoteEvent ev e c w =
       (if ne_IsCreatingCommentEvent e \<and> ne_IsPullRequest e
           \<and> (\<exists>l\<in>set (lines_of (ne_CommentBody e)). is_check_cla_line l)
        then (case getConfig ev c (ne_Org e) (ne_Repo e) of
                Inl err \<Rightarrow> (Some err, w)
              | Inr cfg \<Rightarrow> handle ev (ne_Org e) (ne_Repo e) (ne_PullRequest e) cfg True w)
        else (None, w))"
  using command_line_starts_with_slash
  by (auto simp: handleNoteEvent_def MatchString_checkCLARe)

theorem comment_trigger_witness:
  "handleNoteEvent env0 (note0 (''thanks'' @ [nl] @ ''/Check-CLA  '' @ [CHR 0x0D, nl] @ ''bye'') ''open'')
      (Configuration (Some [cfg0])) (world0 [commit0 ''abcdef1234'' ''a@x.com'' ''fix''] [])
   = handle env0 ''org'' ''repo'' (pr0 []) cfg0 True
       (world0 [commit0 ''abcdef1234'' ''a@x.com'' ''fix''] [])"
proof -
  let ?body = "''thanks'' @ [nl] @ ''/Check-CLA  '' @ [CHR 0x0D, nl] @ ''bye''"
  have m: "MatchString checkCLARe ?body"
    by (simp add: MatchString_def checkCLARe_def swap_case_def nl_def is_space_def)
  have cfg: "getConfig env0 (Configuration (Some [cfg0])) ''org'' ''repo'' = Inr cfg0"
    by (simp add: getConfig_def configFor_def env0_def)
  from comment_trigger[of ?body env0 "note0 ?body ''open''" "Configuration (Some [cfg0])"
      "world0 [commit0 ''abcdef1234'' ''a@x.com'' ''fix''] []"] m cfg
  show ?thesis by (simp add: note0_def pr0_def)
qed

text \<open>As first stated the claim fails: the pattern starts at the beginning of a line, so
  a comment whose only line has a space before the command triggers nothing.\<close>

theorem comment_trigger_counterexample:
  "\<not> MatchString checkCLARe '' /check-cla''
   \<and> handleNoteEvent env0 (note0 '' /check-cla'' ''open'') (Configuration (Some [cfg0]))
        (world0 [commit0 ''abcdef1234'' ''a@x.com'' ''fix''] [])
      = (None, world0 [commit0 ''abcdef1234'' ''a@x.com'' ''fix''] [])"
  by (simp add: event_defs)

section \<open>Comments on pull requests that are not open\<close>

text \<open>
  C9 does not hold of the code: \<open>handleNoteEvent\<close> never reads the state of the pull
  request, so the state makes no difference to what a comment event does, while
  \<open>handlePREvent\<close> returns at once unless the state is open. A /check-cla comment on a
  closed pull request is reconciled like one on an open pull request.
\<close>

theorem note_event_ignores_pr_state:
  "handleNoteEvent ev (e\<lparr>ne_PullRequest := (ne_PullRequest e)\<lparr>State := s\<rparr>\<rparr>) c w
     = handleNoteEvent ev e c w
   \<and> (s \<noteq> ''open'' \<longrightarrow>
        handlePREvent ev (pe\<lparr>pe_PullRequest := (pe_PullRequest pe)\<lparr>State := s\<rparr>\<rparr>) c w = (None, w))"
  by (simp add: handleNoteEvent_def handlePREvent_def handle_ignores_state split: sum.splits)

theorem note_event_ignores_pr_state_witness:
  "new_calls (world0 [commit0 ''abcdef1234'' ''b@x.com'' ''fix''] [])
     (snd (handleNoteEvent env0 (note0 ''/check-cla'' ''closed'') (Configuration (Some [cfg0]))
        (world0 [commit0 ''abcdef1234'' ''b@x.com'' ''fix''] [])))
   = [GetPRCommits ''org'' ''repo'' 7, HttpGet ''https://cla.example/check?email=b@x.com'',
      ListPRComments ''org'' ''repo'' 7, DeletePRComment ''org'' ''repo'' 2,
      AddPRLabel ''org'' ''repo'' 7 ''cla/no'',
      CreatePRComment ''org'' ''repo'' 7
        (signGuide ''https://cla.example/sign''
           (generateUnSignComment [commit0 ''abcdef1234'' ''b@x.com'' ''fix''])
           ''https://cla.example/faq'')]"
proof -
  let ?w = "world0 [commit0 ''abcdef1234'' ''b@x.com'' ''fix''] []"
  have closed: "note0 ''/check-cla'' ''closed''
      = (note0 ''/check-cla'' ''open'')\<lparr>ne_PullRequest :=
           (ne_PullRequest (note0 ''/check-cla'' ''open''))\<lparr>State := ''closed''\<rparr>\<rparr>"
    by (simp add: note0_def)
  have "new_calls ?w (snd (handleNoteEvent env0 (note0 ''/check-cla'' ''open'')
          (Configuration (Some [cfg0])) ?w))
   = [GetPRCommits ''org'' ''repo'' 7, HttpGet ''https://cla.example/check?email=b@x.com'',
      ListPRComments ''org'' ''repo'' 7, DeletePRComment ''org'' ''repo'' 2,
      AddPRLabel ''org'' ''repo'' 7 ''cla/no'',
      CreatePRComment ''org'' ''repo'' 7
        (signGuide ''https://cla.example/sign''
           (generateUnSignComment [commit0 ''abcdef1234'' ''b@x.com'' ''fix''])
           ''https://cla.example/faq'')]"
    by (simp add: new_calls_def event_defs run_defs signGuideTitle_def prefixOld_def)
  with note_event_ignores_pr_state[where ev = env0 and e = "note0 ''/check-cla'' ''open''"
      and s = "''closed''" and c = "Configuration (Some [cfg0])" and w = ?w]
  show ?thesis unfolding closed by simp
qed

section \<open>Failures of label and comment calls\<close>




end
